theory Spec2Isabelle
  imports Complex_Main "HOL-Library.Word" "HOL-Library.AList" "HOL-Library.Code_Target_Numeral"
begin

unbundle bit_operations_syntax

section \<open>Data model (types.ts)\<close>

text \<open>
  JavaScript numbers that hold measurements (heights, temperatures, costs, scores) are
  modelled as \<^typ>\<open>real\<close>: rounding to double or to the 32-bit floats of a
  \<open>Float32Array\<close> is not modelled for them, and neither are NaN and the infinities,
  except where a function stores \<open>Infinity\<close> on purpose (the water-distance field).
  The flow accumulation holds counts, and there the rounding of each store is modelled.
  Grid indices, counts and byte masks are \<^typ>\<open>nat\<close>; values that the source
  lets go negative (neighbour coordinates, direction codes) are \<^typ>\<open>int\<close>.
  A typed array is a list addressed by \<open>y * width + x\<close>.
\<close>

datatype Biome =
  Ocean | Beach | Lake | Snow | Tundra | Taiga | Grassland | TemperateForest
  | Rainforest | Desert | Savanna | MountainRock

datatype CityType = capital | city | town | port

record City =
  city_id :: nat
  city_x :: nat
  city_y :: nat
  city_size :: real
  city_type :: CityType
  city_name :: string

record Road =
  fromCityId :: nat
  toCityId :: nat
  road_path :: "(nat \<times> nat) list"

record biomes_settings =
  desertMoistureMax :: real
  snowTempMax :: real
  mountainElevationMin :: real
  beachElevationRange :: real

section \<open>Loops over the grid\<close>

text \<open>
  \<open>for (let y = 0; y < height; y++) for (let x = 0; x < width; x++) body\<close>:
  the body transforms the loop's state, rows outermost.
\<close>

definition grid_loop :: "nat \<Rightarrow> nat \<Rightarrow> (nat \<Rightarrow> nat \<Rightarrow> 's \<Rightarrow> 's) \<Rightarrow> 's \<Rightarrow> 's" where
  "grid_loop width height body s =
     fold (\<lambda>y. fold (\<lambda>x. body x y) [0..<width]) [0..<height] s"

text \<open>
  The test \<open>nx >= 0 && nx < width && ny >= 0 && ny < height\<close> and the index
  \<open>ny * width + nx\<close> of a neighbour cell.
\<close>

definition in_bounds :: "nat \<Rightarrow> nat \<Rightarrow> int \<Rightarrow> int \<Rightarrow> bool" where
  "in_bounds width height nx ny \<longleftrightarrow> 0 \<le> nx \<and> nx < int width \<and> 0 \<le> ny \<and> ny < int height"

definition cell_index :: "nat \<Rightarrow> int \<Rightarrow> int \<Rightarrow> nat" where
  "cell_index width nx ny = nat (ny * int width + nx)"

section \<open>Biome classification (biomes.ts)\<close>

text \<open>
  The search for an ocean cell in the 7 x 7 window around \<open>(x, y)\<close>
  (\<open>checkRadius = 3\<close>, left by \<open>break outer\<close> at the first hit).
\<close>

definition nearOcean :: "nat list \<Rightarrow> nat \<Rightarrow> nat \<Rightarrow> nat \<Rightarrow> nat \<Rightarrow> bool" where
  "nearOcean landMask width height x y =
     list_ex (\<lambda>dy. list_ex (\<lambda>dx.
        in_bounds width height (int x + dx) (int y + dy)
        \<and> landMask ! cell_index width (int x + dx) (int y + dy) = 0) [-3..3]) [-3..3]"

text \<open>The body of the cell loop of \<open>classifyBiomes\<close>: the value written to \<open>biome[idx]\<close>.\<close>

definition classifyCell ::
  "real list \<Rightarrow> nat list \<Rightarrow> nat list \<Rightarrow> real list \<Rightarrow> real list \<Rightarrow> biomes_settings \<Rightarrow> real
    \<Rightarrow> nat \<Rightarrow> nat \<Rightarrow> nat \<Rightarrow> nat \<Rightarrow> Biome" where
  "classifyCell heightMap landMask lakeMask temperature moisture bs seaLevel width height x y =
    (let idx = y * width + x;
         elev = heightMap ! idx;
         temp = temperature ! idx;
         moist = moisture ! idx
     in if landMask ! idx = 0 then Ocean
        else if lakeMask ! idx = 1 then Lake
        else
          let landElev = (elev - seaLevel) / (1 - seaLevel) in
          if landElev < beachElevationRange bs \<and> nearOcean landMask width height x y then Beach
          else if landElev \<ge> mountainElevationMin bs then
            (if temp < snowTempMax bs * 1.5 then Snow else MountainRock)
          else if temp < snowTempMax bs then Snow
          else if temp < snowTempMax bs * 2 then
            (if moist < 0.3 then Tundra else Taiga)
          else if temp < 0.5 then
            (if moist < desertMoistureMax bs then Grassland
             else if moist < 0.5 then Grassland
             else TemperateForest)
          else if temp < 0.75 then
            (if moist < desertMoistureMax bs then Desert
             else if moist < 0.4 then Savanna
             else if moist < 0.7 then Grassland
             else TemperateForest)
          else
            (if moist < desertMoistureMax bs then Desert
             else if moist < 0.35 then Savanna
             else if moist < 0.6 then Grassland
             else Rainforest))"

text \<open>
  \<open>classifyBiomes\<close>: a fresh \<open>Uint8Array(size)\<close> is all zero, which is
  \<open>Biome.Ocean\<close>; the loop then writes every cell it visits.
\<close>

definition classifyBiomes ::
  "real list \<Rightarrow> nat list \<Rightarrow> nat list \<Rightarrow> real list \<Rightarrow> real list \<Rightarrow> biomes_settings \<Rightarrow> real
    \<Rightarrow> nat \<Rightarrow> nat \<Rightarrow> Biome list" where
  "classifyBiomes heightMap landMask lakeMask temperature moisture bs seaLevel width height =
     grid_loop width height
       (\<lambda>x y biome. biome[y * width + x :=
           classifyCell heightMap landMask lakeMask temperature moisture bs seaLevel width height x y])
       (replicate (width * height) Ocean)"

text \<open>
  The decision table as the specification words it, independent of the code above.
  A cell is seen through six values: the land/water flag, the lake flag, whether ocean
  lies within the fixed radius, the elevation normalised above sea level, the
  temperature and the moisture.
\<close>

record cell_input =
  ci_water :: bool
  ci_lake :: bool
  ci_nearOcean :: bool
  ci_landElev :: real
  ci_temp :: real
  ci_moist :: real

text \<open>
  Ocean within \<open>radius\<close> of \<open>(x, y)\<close>: some cell \<open>j\<close> of the grid is water and lies
  at most \<open>radius\<close> columns and \<open>radius\<close> rows away.
\<close>

definition ocean_within :: "nat \<Rightarrow> nat list \<Rightarrow> nat \<Rightarrow> nat \<Rightarrow> nat \<Rightarrow> nat \<Rightarrow> bool" where
  "ocean_within radius landMask width height x y \<longleftrightarrow>
     (\<exists>j \<in> {0..<width * height}.
        landMask ! j = 0
        \<and> \<bar>int (j mod width) - int x\<bar> \<le> int radius
        \<and> \<bar>int (j div width) - int y\<bar> \<le> int radius)"

text \<open>
  The rules in the documented order: ocean, lake, beach near ocean, high mountain (split
  by temperature), then the five temperature bands (cold, cool, temperate, warm, hot),
  each with its moisture thresholds. Every row carries the whole interval it stands
  for, and no row is a catch-all.
\<close>

definition biome_table :: "biomes_settings \<Rightarrow> cell_input \<Rightarrow> (bool \<times> Biome) list" where
  "biome_table bs c =
     (let e = ci_landElev c; t = ci_temp c; m = ci_moist c;
          s = snowTempMax bs; d = desertMoistureMax bs
      in [(ci_water c, Ocean),
          (ci_lake c, Lake),
          (e < beachElevationRange bs \<and> ci_nearOcean c, Beach),
          (mountainElevationMin bs \<le> e \<and> t < s * 1.5, Snow),
          (mountainElevationMin bs \<le> e \<and> s * 1.5 \<le> t, MountainRock),
          (t < s, Snow),
          (s \<le> t \<and> t < s * 2 \<and> m < 0.3, Tundra),
          (s \<le> t \<and> t < s * 2 \<and> 0.3 \<le> m, Taiga),
          (s * 2 \<le> t \<and> t < 0.5 \<and> m < d, Grassland),
          (s * 2 \<le> t \<and> t < 0.5 \<and> d \<le> m \<and> m < 0.5, Grassland),
          (s * 2 \<le> t \<and> t < 0.5 \<and> 0.5 \<le> m, TemperateForest),
          (0.5 \<le> t \<and> t < 0.75 \<and> m < d, Desert),
          (0.5 \<le> t \<and> t < 0.75 \<and> d \<le> m \<and> m < 0.4, Savanna),
          (0.5 \<le> t \<and> t < 0.75 \<and> 0.4 \<le> m \<and> m < 0.7, Grassland),
          (0.5 \<le> t \<and> t < 0.75 \<and> 0.7 \<le> m, TemperateForest),
          (0.75 \<le> t \<and> m < d, Desert),
          (0.75 \<le> t \<and> d \<le> m \<and> m < 0.35, Savanna),
          (0.75 \<le> t \<and> 0.35 \<le> m \<and> m < 0.6, Grassland),
          (0.75 \<le> t \<and> 0.6 \<le> m, Rainforest)])"

fun first_match :: "(bool \<times> Biome) list \<Rightarrow> Biome option" where
  "first_match [] = None"
| "first_match ((c, b) # rules) = (if c then Some b else first_match rules)"

text \<open>What the table is asked about cell \<open>(x, y)\<close> of the layers.\<close>

definition cell_view ::
  "real list \<Rightarrow> nat list \<Rightarrow> nat list \<Rightarrow> real list \<Rightarrow> real list \<Rightarrow> real
    \<Rightarrow> nat \<Rightarrow> nat \<Rightarrow> nat \<Rightarrow> nat \<Rightarrow> cell_input" where
  "cell_view heightMap landMask lakeMask temperature moisture seaLevel width height x y =
     \<lparr> ci_water = (landMask ! (y * width + x) = 0),
       ci_lake = (lakeMask ! (y * width + x) = 1),
       ci_nearOcean = ocean_within 3 landMask width height x y,
       ci_landElev = (heightMap ! (y * width + x) - seaLevel) / (1 - seaLevel),
       ci_temp = temperature ! (y * width + x),
       ci_moist = moisture ! (y * width + x) \<rparr>"

section \<open>Hydrology (hydrology.ts)\<close>

text \<open>Direction vectors for 8-way movement.\<close>

definition DX :: "int list" where
  "DX = [0, 1, 1, 1, 0, - 1, - 1, - 1]"

definition DY :: "int list" where
  "DY = [- 1, - 1, 0, 1, 1, 1, 0, - 1]"

text \<open>\<open>(d % 2 === 0) ? 1 : Math.SQRT2\<close>\<close>

definition step_dist :: "nat \<Rightarrow> real" where
  "step_dist d = (if d mod 2 = 0 then 1 else sqrt 2)"

subsection \<open>calculateFlowDirection\<close>

text \<open>
  One round of the loop over the eight neighbours; the state is
  \<open>(steepestDir, steepestSlope)\<close>, which starts at \<open>(-1, 0)\<close>.
\<close>

definition steepest_step ::
  "real list \<Rightarrow> nat \<Rightarrow> nat \<Rightarrow> nat \<Rightarrow> nat \<Rightarrow> nat \<Rightarrow> int \<times> real \<Rightarrow> int \<times> real" where
  "steepest_step heightMap width height x y d st =
     (let nx = int x + DX ! d; ny = int y + DY ! d in
      if \<not> in_bounds width height nx ny then st
      else
        let neighborHeight = heightMap ! cell_index width nx ny;
            slope = (heightMap ! (y * width + x) - neighborHeight) / step_dist d
        in if slope > snd st then (int d, slope) else st)"

definition calculateFlowDirection :: "real list \<Rightarrow> nat list \<Rightarrow> nat \<Rightarrow> nat \<Rightarrow> int list" where
  "calculateFlowDirection heightMap landMask width height =
     grid_loop width height
       (\<lambda>x y flowDir.
          if landMask ! (y * width + x) = 0 then flowDir
          else flowDir[y * width + x :=
                 fst (fold (steepest_step heightMap width height x y) [0..<8] (- 1, 0))])
       (replicate (width * height) (- 1))"

subsection \<open>calculateFlowAccumulation\<close>

text \<open>
  The cell that cell \<open>i\<close> drains to: \<open>dir = flowDir[i]\<close>, and when \<open>dir >= 0\<close>
  the neighbour \<open>(i % width + DX[dir], floor(i / width) + DY[dir])\<close>, if it lies on
  the grid. A direction beyond the tables reads \<open>undefined\<close>, the coordinates become
  NaN and the bounds test fails.
\<close>

definition flow_target :: "int list \<Rightarrow> nat \<Rightarrow> nat \<Rightarrow> nat \<Rightarrow> nat option" where
  "flow_target flowDir width height i =
     (let dir = flowDir ! i in
      if dir \<ge> 0 then
        (if dir < 8 then
           let nx = int (i mod width) + DX ! nat dir;
               ny = int (i div width) + DY ! nat dir
           in if in_bounds width height nx ny then Some (cell_index width nx ny) else None
         else None)
      else None)"

text \<open>
  Building the dependency graph: \<open>inDegree\<close> is a \<open>Uint16Array\<close>, so its
  entries are 16-bit words and \<open>++\<close>, \<open>--\<close> wrap around.
\<close>

definition count_inflow :: "int list \<Rightarrow> nat list \<Rightarrow> nat \<Rightarrow> nat \<Rightarrow> 16 word list" where
  "count_inflow flowDir landMask width height =
     fold (\<lambda>i inDegree.
             if landMask ! i = 0 then inDegree
             else case flow_target flowDir width height i of
                    None \<Rightarrow> inDegree
                  | Some n \<Rightarrow> inDegree[n := inDegree ! n + 1])
       [0..<width * height] (replicate (width * height) 0)"

text \<open>
  \<open>flowAccum\<close> is a \<open>Float32Array\<close> that holds counts of cells: every store
  rounds to the nearest number with a 24-bit significand, ties to even. The counts are
  natural numbers, \<open>bit_length n\<close> is the number of binary digits of \<open>n\<close>, and
  \<open>float32 n\<close> is the count that a store of \<open>n\<close> leaves in the array. (The sum of
  two counts is formed in double precision, which is exact below \<open>2^53\<close>; a float
  overflows only at \<open>2^128\<close>.)
\<close>

fun bit_length :: "nat \<Rightarrow> nat" where
  "bit_length n = (if n = 0 then 0 else Suc (bit_length (n div 2)))"

declare bit_length.simps [simp del]

definition float32 :: "nat \<Rightarrow> nat" where
  "float32 n =
     (let e = bit_length n - 24;
          q = n div 2 ^ e;
          r = n mod 2 ^ e
      in if 2 * r > 2 ^ e \<or> (2 * r = 2 ^ e \<and> odd q) then (q + 1) * 2 ^ e else q * 2 ^ e)"

text \<open>
  The \<open>while (queue.length > 0)\<close> loop: \<open>queue.shift()\<close> takes the head and
  \<open>queue.push\<close> appends. Reading a typed array past its end gives
  \<open>undefined\<close>, which is never \<open>=== 0\<close>: the test \<open>nidx < length inDegree\<close>
  writes that out.
\<close>

function flow_loop ::
  "int list \<Rightarrow> nat list \<Rightarrow> nat \<Rightarrow> nat \<Rightarrow> nat list \<Rightarrow> nat list \<Rightarrow> 16 word list \<Rightarrow> nat list" where
  "flow_loop flowDir landMask width height queue flowAccum inDegree =
     (case queue of
        [] \<Rightarrow> flowAccum
      | idx # rest \<Rightarrow>
          (case flow_target flowDir width height idx of
             None \<Rightarrow> flow_loop flowDir landMask width height rest flowAccum inDegree
           | Some nidx \<Rightarrow>
               flow_loop flowDir landMask width height
                 (if nidx < length inDegree \<and> inDegree ! nidx - 1 = 0 \<and> landMask ! nidx = 1
                  then rest @ [nidx] else rest)
                 (flowAccum[nidx := float32 (flowAccum ! nidx + flowAccum ! idx)])
                 (inDegree[nidx := inDegree ! nidx - 1])))"
  by pat_completeness auto

lemma sum_list_update_nat:
  fixes f :: "'a \<Rightarrow> nat"
  assumes "k < length xs"
  shows "sum_list (map f (xs[k := v])) + f (xs ! k) = sum_list (map f xs) + f v"
  using assms
proof (induction xs arbitrary: k)
  case Nil
  then show ?case by simp
next
  case (Cons a xs)
  then show ?case by (cases k) (auto simp: add.assoc)
qed

lemma unat_neg_dec:
  fixes c :: "16 word"
  shows "unat (- (c - 1)) = (if c = 1 then 0 else unat (- c) + 1)"
proof (cases "c = 1")
  case True
  then show ?thesis by simp
next
  case False
  have eq: "- (c - 1) = 1 + - c" by simp
  have "1 + - c \<noteq> 0"
  proof
    assume "1 + - c = 0"
    then have "c = 1" by simp
    with False show False by simp
  qed
  then have "unat (1 + - c) = Suc (unat (- c))" by (rule unatSuc)
  with False eq show ?thesis by simp
qed

text \<open>
  Every round either shortens the queue, or keeps its length and resets a counter from 1
  to 0; a counter at 0 that is decremented again wraps to 65535 and needs 65535 more
  decrements to reach 0, which the measure accounts for.
\<close>

termination flow_loop
proof (relation "measure (\<lambda>(flowDir, landMask, width, height, queue, flowAccum, inDegree).
          2 * length queue + sum_list (map (\<lambda>c. unat (- c)) inDegree))", goal_cases)
  case 1
  then show ?case by simp
next
  case (2 flowDir landMask width height queue flowAccum inDegree idx rest)
  then show ?case by simp
next
  case (3 flowDir landMask width height queue flowAccum inDegree idx rest nidx)
  show ?case
  proof (cases "nidx < length inDegree")
    case False
    with 3 show ?thesis by (simp add: not_less list_update_beyond)
  next
    case True
    from sum_list_update_nat[OF True, of "\<lambda>c. unat (- c)" "inDegree ! nidx - 1"]
    have eq: "sum_list (map (\<lambda>c. unat (- c)) (inDegree[nidx := inDegree ! nidx - 1]))
        + unat (- (inDegree ! nidx))
        = sum_list (map (\<lambda>c. unat (- c)) inDegree) + unat (- (inDegree ! nidx - 1))" .
    show ?thesis
    proof (cases "inDegree ! nidx = 1")
      case c1: True
      then have "0 < unat (- (inDegree ! nidx))" by (simp add: unat_gt_0)
      with eq c1 True 3 show ?thesis by simp
    next
      case c2: False
      then have "inDegree ! nidx - 1 \<noteq> 0" by simp
      moreover have "unat (- (inDegree ! nidx - 1)) = unat (- (inDegree ! nidx)) + 1"
        using c2 unat_neg_dec[of "inDegree ! nidx"] by simp
      ultimately show ?thesis using eq 3 True by simp
    qed
  qed
qed

text \<open>
  \<open>calculateFlowAccumulation\<close>: every cell starts with one unit, the sources (land
  cells with no incoming flow) are queued in index order, and the loop drains them.
\<close>

definition calculateFlowAccumulation :: "int list \<Rightarrow> nat list \<Rightarrow> nat \<Rightarrow> nat \<Rightarrow> nat list" where
  "calculateFlowAccumulation flowDir landMask width height =
     (let size = width * height;
          inDegree = count_inflow flowDir landMask width height;
          queue = filter (\<lambda>i. landMask ! i = 1 \<and> inDegree ! i = 0) [0..<size]
      in flow_loop flowDir landMask width height queue (replicate size 1) inDegree)"

text \<open>
  The relation of the conservation law, read off the direction tables alone: cell
  \<open>j\<close> points into cell \<open>k\<close> when its direction is one of the eight codes \<open>d\<close>
  and \<open>k\<close> is the cell of the grid one step along \<open>(DX[d], DY[d])\<close> from \<open>j\<close>.
\<close>

definition points_into :: "int list \<Rightarrow> nat \<Rightarrow> nat \<Rightarrow> nat \<Rightarrow> nat \<Rightarrow> bool" where
  "points_into flowDir width height j k \<longleftrightarrow>
     j < width * height \<and> k < width * height
     \<and> (\<exists>d \<in> {0..<8}. flowDir ! j = int d
            \<and> int (k mod width) = int (j mod width) + DX ! d
            \<and> int (k div width) = int (j div width) + DY ! d)"

subsection \<open>calculateWaterDistance\<close>

text \<open>
  A cell of \<open>distance\<close> holds a number or \<open>Infinity\<close>, the value the array is filled
  with. The comparisons and the division of the source on such a value:
  \<open>a < Infinity\<close> holds for every number \<open>a\<close>, nothing is above \<open>Infinity\<close>, and
  \<open>Infinity / m\<close> is \<open>Infinity\<close> for \<open>m > 0\<close>.
\<close>

datatype number = Num real | PosInfinity

fun num_less :: "number \<Rightarrow> number \<Rightarrow> bool" where
  "num_less (Num a) (Num b) \<longleftrightarrow> a < b"
| "num_less (Num a) PosInfinity \<longleftrightarrow> True"
| "num_less PosInfinity b \<longleftrightarrow> False"

text \<open>
  One neighbour in the loop over \<open>d\<close>; the state is \<open>(distance, queue)\<close>, and
  \<open>qdist\<close> is the \<open>dist\<close> of the queue entry taken.
\<close>

definition relax_step ::
  "nat \<Rightarrow> nat \<Rightarrow> nat \<Rightarrow> nat \<Rightarrow> real \<Rightarrow> nat
    \<Rightarrow> number list \<times> (nat \<times> nat \<times> real) list \<Rightarrow> number list \<times> (nat \<times> nat \<times> real) list" where
  "relax_step width height x y qdist d st =
     (let nx = int x + DX ! d; ny = int y + DY ! d in
      if in_bounds width height nx ny then
        let nidx = cell_index width nx ny;
            newDist = qdist + step_dist d
        in if num_less (Num newDist) (fst st ! nidx)
           then ((fst st)[nidx := Num newDist], snd st @ [(nat nx, nat ny, newDist)])
           else st
      else st)"

text \<open>
  The breadth-first loop \<open>while (queue.length > 0)\<close>; \<open>None\<close> is the loop not
  returning.
\<close>

partial_function (option) water_bfs ::
  "nat \<Rightarrow> nat \<Rightarrow> (nat \<times> nat \<times> real) list \<Rightarrow> number list \<Rightarrow> number list option" where
  "water_bfs width height queue distance =
     (case queue of
        [] \<Rightarrow> Some distance
      | entry # rest \<Rightarrow>
          (let x = fst entry; y = fst (snd entry); qdist = snd (snd entry) in
           if num_less (distance ! (y * width + x)) (Num qdist)
           then water_bfs width height rest distance
           else water_bfs width height
                  (snd (fold (relax_step width height x y qdist) [0..<8] (distance, rest)))
                  (fst (fold (relax_step width height x y qdist) [0..<8] (distance, rest)))))"

text \<open>
  \<open>calculateWaterDistance\<close>: the water cells (ocean, river, lake) start the search
  at distance 0; then the field is divided by its largest finite value, when that is
  positive.
\<close>

definition calculateWaterDistance ::
  "nat list \<Rightarrow> nat list \<Rightarrow> nat list \<Rightarrow> nat \<Rightarrow> nat \<Rightarrow> number list option" where
  "calculateWaterDistance landMask rivers lakeMask width height =
     (let size = width * height;
          start = grid_loop width height
                    (\<lambda>x y st.
                       if landMask ! (y * width + x) = 0 \<or> rivers ! (y * width + x) > 0
                          \<or> lakeMask ! (y * width + x) = 1
                       then ((fst st)[y * width + x := Num 0], snd st @ [(x, y, 0)])
                       else st)
                    (replicate size PosInfinity, [])
      in case water_bfs width height (snd start) (fst start) of
           None \<Rightarrow> None
         | Some distance \<Rightarrow>
             let maxDist = fold (\<lambda>i m. case distance ! i of
                                          Num v \<Rightarrow> max m v
                                        | PosInfinity \<Rightarrow> m) [0..<size] 0
             in if maxDist > 0
                then Some (fold (\<lambda>i distance.
                                   distance[i := (case distance ! i of
                                                    Num v \<Rightarrow> Num (min 1 (v / maxDist))
                                                  | PosInfinity \<Rightarrow> Num 1)])
                             [0..<size] distance)
                else Some distance)"

section \<open>Deterministic pseudorandom number generator (prng.ts)\<close>

text \<open>
  The generator's only field is \<open>state\<close>, a JavaScript number: it grows by
  \<open>0x6D2B79F5\<close> at every draw and is never reduced, so it is an integer here (exact
  in a double below \<open>2^53\<close>, that is for the first 4.9 million draws of a stream);
  the bit operations and \<open>Math.imul\<close> act on its low 32 bits.
\<close>

type_synonym PRNG = int

text \<open>
  \<open>hashString\<close>: \<open>hash = ((hash << 5) - hash) + char; hash = hash & hash\<close>
  for every UTF-16 code unit, then \<open>Math.abs(hash) || 1\<close>.
\<close>

definition hashString :: "string \<Rightarrow> int" where
  "hashString str =
     (let hash = fold (\<lambda>c hash. sint (push_bit 5 (word_of_int hash :: 32 word)
                                     - word_of_int hash + word_of_nat (of_char c)))
                   str 0
      in if \<bar>hash\<bar> = 0 then 1 else \<bar>hash\<bar>)"

text \<open>The constructor, from a number and from a string: a zero state becomes 1.\<close>

definition new_PRNG :: "int \<Rightarrow> PRNG" where
  "new_PRNG seed = (if seed = 0 then 1 else seed)"

definition new_PRNG_string :: "string \<Rightarrow> PRNG" where
  "new_PRNG_string seed = new_PRNG (hashString seed)"

text \<open>
  \<open>next()\<close> (Mulberry32): the 32-bit integer \<open>(t ^ t >>> 14) >>> 0\<close> and the new
  state; \<open>prng_next\<close> divides it by \<open>4294967296\<close>.
\<close>

definition prng_next_u32 :: "PRNG \<Rightarrow> 32 word \<times> PRNG" where
  "prng_next_u32 state =
     (let state' = state + 0x6D2B79F5;
          t0 = (word_of_int state' :: 32 word);
          t1 = (t0 XOR drop_bit 15 t0) * (t0 OR 1);
          t2 = t1 XOR (t1 + (t1 XOR drop_bit 7 t1) * (t1 OR 61))
      in (t2 XOR drop_bit 14 t2, state'))"

definition prng_next :: "PRNG \<Rightarrow> real \<times> PRNG" where
  "prng_next state = (let (u, state') = prng_next_u32 state in (real (unat u) / 4294967296, state'))"

definition prng_range :: "real \<Rightarrow> real \<Rightarrow> PRNG \<Rightarrow> real \<times> PRNG" where
  "prng_range lo hi state = (let (r, state') = prng_next state in (lo + r * (hi - lo), state'))"

definition prng_chance :: "real \<Rightarrow> PRNG \<Rightarrow> bool \<times> PRNG" where
  "prng_chance probability state = (let (r, state') = prng_next state in (r < probability, state'))"

definition prng_pick :: "'a list \<Rightarrow> PRNG \<Rightarrow> 'a \<times> PRNG" where
  "prng_pick array state =
     (let (r, state') = prng_next state in (array ! nat \<lfloor>r * real (length array)\<rfloor>, state'))"

text \<open>
  \<open>fork()\<close>: a new generator seeded with \<open>Math.floor(this.next() * 2147483647)\<close>;
  the parent advances by one draw. It returns the child and the parent's new state.
\<close>

definition prng_fork :: "PRNG \<Rightarrow> PRNG \<times> PRNG" where
  "prng_fork state =
     (let (r, state') = prng_next state in (new_PRNG \<lfloor>r * 2147483647\<rfloor>, state'))"

section \<open>City placement (cities.ts)\<close>

text \<open>
  The sub-record \<open>settings.cities\<close>. The controls set \<open>count\<close> and
  \<open>minSpacing\<close> to whole numbers; the loops of \<open>placeCities\<close> count with them.
\<close>

record cities_settings =
  cities_enabled :: bool
  count :: nat
  minSpacing :: int
  coastPreference :: real
  riverPreference :: real
  flatPreference :: real

definition NAME_PREFIXES :: "string list" where
  "NAME_PREFIXES = [''New'', ''Old'', ''East'', ''West'', ''North'', ''South'', ''Great'',
     ''Little'', ''Upper'', ''Lower'']"

definition NAME_ROOTS :: "string list" where
  "NAME_ROOTS = [''haven'', ''port'', ''ford'', ''bridge'', ''burg'', ''ton'', ''ville'', ''dale'',
     ''wood'', ''field'', ''castle'', ''keep'', ''hold'', ''watch'', ''guard'', ''stone'', ''rock'',
     ''cliff'', ''hill'', ''mount'', ''river'', ''lake'', ''bay'', ''cove'', ''shore'', ''marsh'',
     ''glen'', ''vale'', ''moor'', ''heath'']"

definition NAME_SUFFIXES :: "string list" where
  "NAME_SUFFIXES = [''ia'', ''heim'', ''grad'', ''opolis'', ''minster'', ''wick'', ''worth'',
     ''stead'', []]"

text \<open>\<open>root.charAt(0).toUpperCase() + root.slice(1)\<close>, for the ASCII roots of the table.\<close>

definition capitalize :: "string \<Rightarrow> string" where
  "capitalize rootWord =
     (case rootWord of
        [] \<Rightarrow> []
      | c # cs \<Rightarrow>
          (if (97 :: nat) \<le> of_char c \<and> of_char c \<le> (122 :: nat)
           then char_of (of_char c - (32 :: nat)) else c) # cs)"

definition generateCityName :: "PRNG \<Rightarrow> string \<times> PRNG" where
  "generateCityName prng0 =
     (let (usePrefix, prng1) = prng_chance 0.2 prng0;
          (useSuffix, prng2) = prng_chance 0.5 prng1;
          (name1, prng3) =
             (if usePrefix
              then (let (p, g) = prng_pick NAME_PREFIXES prng2 in (p @ '' '', g))
              else ([], prng2));
          (rootWord, prng4) = prng_pick NAME_ROOTS prng3;
          name2 = name1 @ capitalize rootWord
      in if useSuffix
         then (let (s, g) = prng_pick NAME_SUFFIXES prng4 in (name2 @ s, g))
         else (name2, prng4))"

text \<open>Biomes suitable for cities.\<close>

definition CITY_BIOMES :: "Biome list" where
  "CITY_BIOMES = [Beach, Grassland, TemperateForest, Savanna, Taiga]"

definition calculateSlope :: "real list \<Rightarrow> nat \<Rightarrow> nat \<Rightarrow> nat \<Rightarrow> nat \<Rightarrow> real" where
  "calculateSlope heightMap x y width height =
     (if int x \<le> 0 \<or> int x \<ge> int width - 1 \<or> int y \<le> 0 \<or> int y \<ge> int height - 1 then 1
      else
        fold (\<lambda>dy. fold (\<lambda>dx maxDiff.
                if dx = 0 \<and> dy = 0 then maxDiff
                else max maxDiff
                       \<bar>heightMap ! cell_index width (int x + dx) (int y + dy)
                          - heightMap ! (y * width + x)\<bar>) [- 1..1]) [- 1..1] 0)"

definition isNearCoast :: "nat list \<Rightarrow> nat \<Rightarrow> nat \<Rightarrow> nat \<Rightarrow> nat \<Rightarrow> int \<Rightarrow> bool" where
  "isNearCoast landMask x y width height radius =
     list_ex (\<lambda>dy. list_ex (\<lambda>dx.
        in_bounds width height (int x + dx) (int y + dy)
        \<and> landMask ! cell_index width (int x + dx) (int y + dy) = 0) [- radius..radius])
       [- radius..radius]"

text \<open>The search for a river cell in the 7 x 7 window of the scoring loop.\<close>

definition nearRiver :: "nat list \<Rightarrow> nat \<Rightarrow> nat \<Rightarrow> nat \<Rightarrow> nat \<Rightarrow> bool" where
  "nearRiver rivers x y width height =
     list_ex (\<lambda>dy. list_ex (\<lambda>dx.
        in_bounds width height (int x + dx) (int y + dy)
        \<and> rivers ! cell_index width (int x + dx) (int y + dy) > 0) [- 3..3]) [- 3..3]"

text \<open>
  The body of the scoring loop; its state is the \<open>scores\<close> array and the generator
  (an eligible cell draws one number).
\<close>

definition score_cell ::
  "real list \<Rightarrow> nat list \<Rightarrow> Biome list \<Rightarrow> nat list \<Rightarrow> cities_settings \<Rightarrow> nat \<Rightarrow> nat
    \<Rightarrow> nat \<Rightarrow> nat \<Rightarrow> real list \<times> PRNG \<Rightarrow> real list \<times> PRNG" where
  "score_cell heightMap landMask biome rivers cs width height x y st =
     (let scores = fst st; prng = snd st; idx = y * width + x in
      if landMask ! idx = 0 then (scores[idx := 0], prng)
      else if biome ! idx \<notin> set CITY_BIOMES then (scores[idx := 0], prng)
      else
        let slope = calculateSlope heightMap x y width height;
            score1 = 1 + (1 - slope * 10) * flatPreference cs;
            score2 = (if isNearCoast landMask x y width height 5
                      then score1 + coastPreference cs else score1);
            score3 = (if rivers ! idx > 0 then score2 + riverPreference cs
                      else if nearRiver rivers x y width height
                      then score2 + riverPreference cs * 0.5 else score2);
            (r, prng') = prng_next prng;
            score4 = score3 + r * 0.5
        in (scores[idx := max 0 score4], prng'))"

text \<open>
  \<open>dist < minSpacing\<close> for \<open>dist = Math.sqrt(dx * dx + dy * dy)\<close>: the test of the
  spacing check and of the suppression loop (\<open>spacing\<close> is \<open>minSpacing\<close>).
\<close>

definition dist_less :: "int \<Rightarrow> int \<Rightarrow> int \<Rightarrow> bool" where
  "dist_less dx dy spacing \<longleftrightarrow> sqrt (real_of_int (dx * dx + dy * dy)) < real_of_int spacing"

text \<open>The spacing check against the cities placed so far (\<open>placed\<close> holds their cells).\<close>

definition tooClose :: "nat list \<Rightarrow> nat \<Rightarrow> int \<Rightarrow> nat \<Rightarrow> bool" where
  "tooClose placed width spacing idx =
     list_ex (\<lambda>cityIdx.
        dist_less (int (idx mod width) - int (cityIdx mod width))
                  (int (idx div width) - int (cityIdx div width)) spacing) placed"

text \<open>One random sample; the state is \<open>(bestIdx, bestScore, prng)\<close>, starting at \<open>(-1, 0, _)\<close>.\<close>

definition sample_step ::
  "real list \<Rightarrow> nat list \<Rightarrow> nat \<Rightarrow> int \<Rightarrow> nat \<Rightarrow> int \<times> real \<times> PRNG \<Rightarrow> int \<times> real \<times> PRNG" where
  "sample_step scores placed width spacing gridSize st =
     (let bestIdx = fst st; bestScore = fst (snd st);
          (r, prng) = prng_next (snd (snd st));
          idx = nat \<lfloor>r * real gridSize\<rfloor>
      in if scores ! idx \<le> bestScore then (bestIdx, bestScore, prng)
         else if tooClose placed width spacing idx then (bestIdx, bestScore, prng)
         else (int idx, scores ! idx, prng))"

text \<open>Suppress nearby scores.\<close>

definition suppress :: "real list \<Rightarrow> nat \<Rightarrow> nat \<Rightarrow> int \<Rightarrow> nat \<Rightarrow> nat \<Rightarrow> real list" where
  "suppress scores width height spacing x y =
     fold (\<lambda>dy. fold (\<lambda>dx scores.
             if in_bounds width height (int x + dx) (int y + dy) \<and> dist_less dx dy spacing
             then scores[cell_index width (int x + dx) (int y + dy) := 0] else scores)
           [- spacing..spacing]) [- spacing..spacing] scores"

text \<open>
  Round \<open>i\<close> of the placement loop; the state is \<open>(cities, placed, scores, prng)\<close>.
  \<open>placed\<close> is a \<open>Set\<close>: adding a cell it already holds changes nothing.
\<close>

definition place_step ::
  "nat list \<Rightarrow> nat list \<Rightarrow> cities_settings \<Rightarrow> nat \<Rightarrow> nat \<Rightarrow> nat
    \<Rightarrow> City list \<times> nat list \<times> real list \<times> PRNG \<Rightarrow> City list \<times> nat list \<times> real list \<times> PRNG" where
  "place_step landMask rivers cs width height i st =
     (let cities = fst st; placed = fst (snd st); scores = fst (snd (snd st));
          gridSize = width * height;
          (bestIdx, bestScore, prng1) =
             fold (\<lambda>s. sample_step scores placed width (minSpacing cs) gridSize)
               [0..<min 1000 gridSize] (- 1, 0, snd (snd (snd st)))
      in if bestIdx \<ge> 0 then
           (let x = nat bestIdx mod width;
                y = nat bestIdx div width;
                isCoastal = isNearCoast landMask x y width height 5;
                hasRiver = (rivers ! nat bestIdx > 0);
                (ctype, prng2) =
                   (if i = 0 then (capital, prng1)
                    else if isCoastal \<and> hasRiver
                    then (let (c, g) = prng_chance 0.7 prng1 in (if c then port else city, g))
                    else if isCoastal
                    then (let (c, g) = prng_chance 0.5 prng1 in (if c then port else city, g))
                    else if bestScore > 3 then (city, prng1)
                    else (town, prng1));
                (csize, prng3) = (if i = 0 then (1, prng2) else prng_range 0.3 0.9 prng2);
                (name, prng4) = generateCityName prng3
            in (cities @ [\<lparr> city_id = i, city_x = x, city_y = y, city_size = csize,
                            city_type = ctype, city_name = name \<rparr>],
                (if nat bestIdx \<in> set placed then placed else placed @ [nat bestIdx]),
                suppress scores width height (minSpacing cs) x y,
                prng4))
         else (cities, placed, scores, prng1))"

definition placeCities ::
  "real list \<Rightarrow> nat list \<Rightarrow> Biome list \<Rightarrow> nat list \<Rightarrow> cities_settings \<Rightarrow> nat \<Rightarrow> nat
    \<Rightarrow> PRNG \<Rightarrow> City list" where
  "placeCities heightMap landMask biome rivers cs width height prng =
     (if \<not> cities_enabled cs then []
      else
        let gridSize = width * height;
            (scores, prng1) =
               grid_loop width height (score_cell heightMap landMask biome rivers cs width height)
                 (replicate gridSize 0, prng);
            (cities, placed, scores', prng2) =
               fold (place_step landMask rivers cs width height) [0..<count cs]
                 ([], [], scores, prng1)
        in cities)"

section \<open>Road generation (cities.ts)\<close>

text \<open>
  The sub-record \<open>settings.roads\<close>; \<open>maxConnectionsPerCity\<close> is a count (the
  control offers the whole numbers 1 to 5).
\<close>

record roads_settings =
  roads_enabled :: bool
  maxConnectionsPerCity :: nat
  costElevation :: real
  costWater :: real
  costForest :: real
  costMountain :: real

subsection \<open>Path simplification\<close>

definition perpendicularDistance :: "nat \<times> nat \<Rightarrow> nat \<times> nat \<Rightarrow> nat \<times> nat \<Rightarrow> real" where
  "perpendicularDistance point lineStart lineEnd =
     (let px = real (fst point); py = real (snd point);
          sx = real (fst lineStart); sy = real (snd lineStart);
          ex = real (fst lineEnd); ey = real (snd lineEnd);
          dx = ex - sx; dy = ey - sy;
          len = sqrt (dx * dx + dy * dy)
      in if len = 0 then sqrt ((px - sx)\<^sup>2 + (py - sy)\<^sup>2)
         else \<bar>(dy * px - dx * py + ex * sy - ey * sx) / len\<bar>)"

text \<open>
  The search for the point with maximum distance from the chord: the state is
  \<open>(maxDist, maxIdx)\<close>, starting at \<open>(0, 0)\<close>.
\<close>

definition farthest :: "(nat \<times> nat) list \<Rightarrow> real \<times> nat" where
  "farthest path =
     fold (\<lambda>i st.
             let dist = perpendicularDistance (path ! i) (path ! 0) (path ! (length path - 1))
             in if dist > fst st then (dist, i) else st)
       [1..<length path - 1] (0, 0)"

lemma farthest_fold_range:
  fixes d :: "nat \<Rightarrow> real"
  assumes "0 \<le> fst st" and "fst st = 0 \<or> (lo \<le> snd st \<and> snd st < hi)"
    and "\<forall>i \<in> set xs. lo \<le> i \<and> i < hi"
  shows "0 \<le> fst (fold (\<lambda>i st. let dist = d i in if dist > fst st then (dist, i) else st) xs st)
       \<and> (fst (fold (\<lambda>i st. let dist = d i in if dist > fst st then (dist, i) else st) xs st) = 0
          \<or> (lo \<le> snd (fold (\<lambda>i st. let dist = d i in if dist > fst st then (dist, i) else st) xs st)
             \<and> snd (fold (\<lambda>i st. let dist = d i in if dist > fst st then (dist, i) else st) xs st) < hi))"
  using assms
proof (induction xs arbitrary: st)
  case Nil
  then show ?case by simp
next
  case (Cons x xs)
  let ?st = "if d x > fst st then (d x, x) else st"
  have "0 \<le> fst ?st" using Cons.prems(1) by (simp add: less_imp_le order.trans)
  moreover have "fst ?st = 0 \<or> (lo \<le> snd ?st \<and> snd ?st < hi)"
    using Cons.prems by auto
  moreover have "\<forall>i \<in> set xs. lo \<le> i \<and> i < hi" using Cons.prems by simp
  ultimately show ?case using Cons.IH[of ?st] by (simp add: Let_def)
qed

lemma farthest_index:
  assumes "0 < fst (farthest path)"
  shows "1 \<le> snd (farthest path) \<and> snd (farthest path) < length path - 1"
  using farthest_fold_range[of "(0, 0)" 1 "length path - 1" "[1..<length path - 1]"
      "\<lambda>i. perpendicularDistance (path ! i) (path ! 0) (path ! (length path - 1))"] assms
  by (simp add: farthest_def)

text \<open>
  \<open>simplifyPath\<close> (Ramer-Douglas-Peucker) at its default \<open>epsilon = 2\<close>, the only
  value it is called with. \<open>path.slice(0, maxIdx + 1)\<close> is \<open>take\<close>,
  \<open>path.slice(maxIdx)\<close> is \<open>drop\<close> and \<open>left.slice(0, -1)\<close> is \<open>butlast\<close>.
\<close>

function simplifyPath :: "(nat \<times> nat) list \<Rightarrow> (nat \<times> nat) list" where
  "simplifyPath path =
     (if length path \<le> 2 then path
      else if fst (farthest path) > 2 then
        butlast (simplifyPath (take (snd (farthest path) + 1) path))
          @ simplifyPath (drop (snd (farthest path)) path)
      else [path ! 0, path ! (length path - 1)])"
  by pat_completeness auto
termination
proof (relation "measure length", goal_cases)
  case 1
  then show ?case by simp
next
  case (2 path)
  then have "0 < fst (farthest path)" by simp
  from farthest_index[OF this] show ?case by auto
next
  case (3 path)
  then have "0 < fst (farthest path)" by simp
  from farthest_index[OF this] 3 show ?case by auto
qed

declare simplifyPath.simps [simp del]

subsection \<open>A* search\<close>

text \<open>An entry of \<open>openSet\<close>; the map keeps its entries in insertion order.\<close>

record node =
  node_x :: nat
  node_y :: nat
  node_g :: real
  node_f :: real
  node_parent :: "nat option"

definition heuristic :: "nat \<times> nat \<Rightarrow> nat \<Rightarrow> nat \<Rightarrow> real" where
  "heuristic to x y = real_of_int (\<bar>int x - int (fst to)\<bar> + \<bar>int y - int (snd to)\<bar>)"

definition getCost ::
  "real list \<Rightarrow> nat list \<Rightarrow> nat list \<Rightarrow> roads_settings \<Rightarrow> real \<Rightarrow> nat
    \<Rightarrow> nat \<Rightarrow> nat \<Rightarrow> nat \<Rightarrow> nat \<Rightarrow> real" where
  "getCost heightMap landMask forest rs seaLevel width x y px py =
     (let idx = y * width + x in
      if landMask ! idx = 0 then costWater rs
      else
        let elev = heightMap ! idx;
            prevElev = heightMap ! (py * width + px);
            cost1 = 1 + \<bar>elev - prevElev\<bar> * costElevation rs * 10;
            cost2 = (if elev > seaLevel + 0.5 then cost1 + costMountain rs else cost1)
        in if forest ! idx > 0 then cost2 + costForest rs * (real (forest ! idx) / 255) else cost2)"

text \<open>
  The node with lowest \<open>f\<close>: the scan starts from \<open>lowestF = Infinity\<close>, so the
  first entry always enters, and a later entry replaces it only when strictly lower.
\<close>

fun lowest_entry :: "(nat \<times> node) list \<Rightarrow> nat \<times> node" where
  "lowest_entry (e # es) = fold (\<lambda>e best. if node_f (snd e) < node_f (snd best) then e else best) es e"
| "lowest_entry [] = undefined"

text \<open>
  Path reconstruction: \<open>pathNodes\<close> is a copy of \<open>openSet\<close> as it is when the goal
  is taken; the loop follows \<open>parent\<close> while \<open>pathNodes\<close> has the cell, and
  \<open>path.unshift\<close> puts each cell in front. \<open>None\<close> is the loop not returning.
\<close>

partial_function (option) trace_path ::
  "(nat \<times> node) list \<Rightarrow> nat \<Rightarrow> nat option \<Rightarrow> (nat \<times> nat) list \<Rightarrow> (nat \<times> nat) list option" where
  "trace_path pathNodes width traceIdx path =
     (case traceIdx of
        None \<Rightarrow> Some path
      | Some t \<Rightarrow>
          trace_path pathNodes width
            (case map_of pathNodes t of None \<Rightarrow> None | Some nd \<Rightarrow> node_parent nd)
            ((t mod width, t div width) # path))"

declare trace_path.simps [code]

text \<open>One neighbour of \<open>current\<close> in the loop over \<open>dy\<close> and \<open>dx\<close>.\<close>

definition neighbor_step ::
  "real list \<Rightarrow> nat list \<Rightarrow> nat list \<Rightarrow> roads_settings \<Rightarrow> real \<Rightarrow> nat \<Rightarrow> nat \<Rightarrow> nat \<times> nat
    \<Rightarrow> nat list \<Rightarrow> nat \<Rightarrow> node \<Rightarrow> int \<Rightarrow> int \<Rightarrow> (nat \<times> node) list \<Rightarrow> (nat \<times> node) list" where
  "neighbor_step heightMap landMask forest rs seaLevel width height to closedSet currentIdx current
       dy dx openSet =
     (if dx = 0 \<and> dy = 0 then openSet
      else
        let nx = int (node_x current) + dx; ny = int (node_y current) + dy in
        if \<not> in_bounds width height nx ny then openSet
        else
          let nidx = cell_index width nx ny in
          if nidx \<in> set closedSet then openSet
          else
            let moveCost = getCost heightMap landMask forest rs seaLevel width (nat nx) (nat ny)
                             (node_x current) (node_y current);
                g = node_g current + moveCost;
                entry = \<lparr> node_x = nat nx, node_y = nat ny, node_g = g,
                          node_f = g + heuristic to (nat nx) (nat ny),
                          node_parent = Some currentIdx \<rparr>
            in case map_of openSet nidx of
                 Some existing \<Rightarrow>
                   if node_g existing \<le> g then openSet else AList.update nidx entry openSet
               | None \<Rightarrow> AList.update nidx entry openSet)"

text \<open>
  The main loop, \<open>while (openSet.size > 0 && iterations < maxIterations)\<close> with
  \<open>maxIterations = 10000\<close>. The result is \<open>Some None\<close> for \<open>null\<close> and
  \<open>Some (Some path)\<close> for the reconstructed cell path, before simplification.
\<close>

function astar_loop ::
  "real list \<Rightarrow> nat list \<Rightarrow> nat list \<Rightarrow> roads_settings \<Rightarrow> real \<Rightarrow> nat \<Rightarrow> nat \<Rightarrow> nat \<times> nat
    \<Rightarrow> (nat \<times> node) list \<Rightarrow> nat list \<Rightarrow> nat \<Rightarrow> (nat \<times> nat) list option option" where
  "astar_loop heightMap landMask forest rs seaLevel width height to openSet closedSet iterations =
     (if openSet \<noteq> [] \<and> iterations < 10000 then
        let currentIdx = fst (lowest_entry openSet);
            current = snd (lowest_entry openSet)
        in if currentIdx = snd to * width + fst to then
             map_option Some (trace_path openSet width (Some currentIdx) [])
           else
             let closedSet' = closedSet @ [currentIdx];
                 openSet' =
                   fold (\<lambda>dy. fold (neighbor_step heightMap landMask forest rs seaLevel width
                                       height to closedSet' currentIdx current dy) [- 1..1])
                     [- 1..1] (AList.delete currentIdx openSet)
             in astar_loop heightMap landMask forest rs seaLevel width height to
                  openSet' closedSet' (iterations + 1)
      else Some None)"
  by pat_completeness auto
termination
  by (relation "measure (\<lambda>(heightMap, landMask, forest, rs, seaLevel, width, height, to, openSet,
        closedSet, iterations). 10000 - iterations)") auto

declare astar_loop.simps [simp del]

text \<open>The raw cell path of \<open>findPath\<close>, and \<open>findPath\<close> itself, which returns it simplified.\<close>

definition findPath_cells ::
  "nat \<times> nat \<Rightarrow> nat \<times> nat \<Rightarrow> real list \<Rightarrow> nat list \<Rightarrow> nat list \<Rightarrow> roads_settings \<Rightarrow> real
    \<Rightarrow> nat \<Rightarrow> nat \<Rightarrow> (nat \<times> nat) list option option" where
  "findPath_cells from to heightMap landMask forest rs seaLevel width height =
     astar_loop heightMap landMask forest rs seaLevel width height to
       [(snd from * width + fst from,
         \<lparr> node_x = fst from, node_y = snd from, node_g = 0,
           node_f = heuristic to (fst from) (snd from), node_parent = None \<rparr>)]
       [] 0"

definition findPath ::
  "nat \<times> nat \<Rightarrow> nat \<times> nat \<Rightarrow> real list \<Rightarrow> nat list \<Rightarrow> nat list \<Rightarrow> roads_settings \<Rightarrow> real
    \<Rightarrow> nat \<Rightarrow> nat \<Rightarrow> (nat \<times> nat) list option option" where
  "findPath from to heightMap landMask forest rs seaLevel width height =
     map_option (map_option simplifyPath)
       (findPath_cells from to heightMap landMask forest rs seaLevel width height)"

subsection \<open>generateRoads\<close>

text \<open>All pairs \<open>i < j\<close> with their straight-line distance, in the order of the two loops.\<close>

definition city_pairs :: "City list \<Rightarrow> (City \<times> City \<times> real) list" where
  "city_pairs cities =
     concat (map (\<lambda>i. map (\<lambda>j.
        (cities ! i, cities ! j,
         sqrt ((real (city_x (cities ! i)) - real (city_x (cities ! j)))\<^sup>2
             + (real (city_y (cities ! i)) - real (city_y (cities ! j)))\<^sup>2)))
        [i + 1..<length cities]) [0..<length cities])"

text \<open>
  One round of the loop over the sorted pairs; the state is the road list and the
  \<open>connections\<close> map (\<open>connections.get(id) || 0\<close> is a total function with default
  0), or \<open>None\<close> once a path search has not returned.
\<close>

definition road_step ::
  "real list \<Rightarrow> nat list \<Rightarrow> nat list \<Rightarrow> roads_settings \<Rightarrow> real \<Rightarrow> nat \<Rightarrow> nat
    \<Rightarrow> City \<times> City \<times> real \<Rightarrow> (Road list \<times> (nat \<Rightarrow> nat)) option
    \<Rightarrow> (Road list \<times> (nat \<Rightarrow> nat)) option" where
  "road_step heightMap landMask forest rs seaLevel width height pair st =
     (case st of
        None \<Rightarrow> None
      | Some (roads, connections) \<Rightarrow>
          let from = fst pair; to = fst (snd pair);
              fromConns = connections (city_id from);
              toConns = connections (city_id to)
          in if fromConns \<ge> maxConnectionsPerCity rs \<or> toConns \<ge> maxConnectionsPerCity rs
             then Some (roads, connections)
             else
               (case findPath (city_x from, city_y from) (city_x to, city_y to)
                       heightMap landMask forest rs seaLevel width height of
                  None \<Rightarrow> None
                | Some None \<Rightarrow> Some (roads, connections)
                | Some (Some p) \<Rightarrow>
                    Some (roads @ [\<lparr> fromCityId = city_id from, toCityId = city_id to, road_path = p \<rparr>],
                          connections(city_id from := fromConns + 1, city_id to := toConns + 1))))"

text \<open>
  \<open>generateRoads\<close>; \<open>pairs.sort((a, b) => a.dist - b.dist)\<close> is a stable sort by
  distance. \<open>None\<close> is the function not returning.
\<close>

definition generateRoads ::
  "City list \<Rightarrow> real list \<Rightarrow> nat list \<Rightarrow> nat list \<Rightarrow> roads_settings \<Rightarrow> real \<Rightarrow> nat \<Rightarrow> nat
    \<Rightarrow> Road list option" where
  "generateRoads cities heightMap landMask forest rs seaLevel width height =
     (if \<not> roads_enabled rs \<or> length cities < 2 then Some []
      else
        map_option fst
          (fold (road_step heightMap landMask forest rs seaLevel width height)
             (sort_key (\<lambda>pair. snd (snd pair)) (city_pairs cities))
             (Some ([], \<lambda>id. 0))))"

section \<open>Properties of the grid loop\<close>

lemma fold_length_preserved:
  assumes "\<And>x a. length (body x a) = length a"
  shows "length (fold body xs a) = length a"
  by (induction xs arbitrary: a) (simp_all add: assms)

lemma fold_row_update_length:
  "length (fold (\<lambda>x a. a[g x := F x (a ! g x)]) xs a) = length a"
  by (rule fold_length_preserved) simp

lemma fold_row_update_other:
  "\<forall>x \<in> set xs. g x \<noteq> k \<Longrightarrow> fold (\<lambda>x a. a[g x := F x (a ! g x)]) xs a ! k = a ! k"
  by (induction xs arbitrary: a) auto

lemma fold_row_update_hit:
  assumes "x \<in> set xs" and "distinct xs" and "inj_on g (set xs)" and "g x < length a"
  shows "fold (\<lambda>x a. a[g x := F x (a ! g x)]) xs a ! g x = F x (a ! g x)"
  using assms
proof (induction xs arbitrary: a)
  case Nil
  then show ?case by simp
next
  case (Cons z zs)
  show ?case
  proof (cases "x \<in> set zs")
    case True
    with Cons.prems(2) have zx: "z \<noteq> x" by auto
    with Cons.prems(1,3) have neq: "g z \<noteq> g x" by (auto simp: inj_on_def)
    have "inj_on g (set zs)" using Cons.prems(3) by (simp add: inj_on_def)
    then have "fold (\<lambda>x a. a[g x := F x (a ! g x)]) zs (a[g z := F z (a ! g z)]) ! g x
        = F x (a[g z := F z (a ! g z)] ! g x)"
      using Cons.IH[of "a[g z := F z (a ! g z)]"] True Cons.prems(2,4) by simp
    with neq show ?thesis by simp
  next
    case False
    with Cons.prems have zx: "z = x" by simp
    have "\<forall>u \<in> set zs. g u \<noteq> g x"
      using Cons.prems(3) False zx by (auto simp: inj_on_def)
    then have "fold (\<lambda>x a. a[g x := F x (a ! g x)]) zs (a[g x := F x (a ! g x)]) ! g x
        = a[g x := F x (a ! g x)] ! g x"
      by (rule fold_row_update_other)
    with Cons.prems(4) zx show ?thesis by simp
  qed
qed

lemma cell_index_unique:
  fixes w :: nat
  assumes "x < w" and "x' < w" and "y * w + x = y' * w + x'"
  shows "y = y' \<and> x = x'"
proof -
  have "(y * w + x) div w = y" "(y' * w + x') div w = y'"
    using assms(1,2) by simp_all
  with assms(3) have "y = y'" by simp
  with assms(3) show ?thesis by simp
qed

lemma cell_index_less:
  fixes w :: nat
  assumes "x < w" and "y < h"
  shows "y * w + x < w * h"
proof -
  have "y * w + x < y * w + w" using assms(1) by simp
  also have "\<dots> = w * Suc y" by simp
  also have "\<dots> \<le> w * h" using assms(2) by (intro mult_le_mono2) simp
  finally show ?thesis .
qed

lemma grid_loop_update_length:
  "length (grid_loop w h (\<lambda>x y a. a[g x y := F x y (a ! g x y)]) a) = length a"
proof -
  have "length (fold (\<lambda>y. fold (\<lambda>x a. a[g x y := F x y (a ! g x y)]) xs) ys a) = length a"
    for xs ys
    by (intro fold_length_preserved) simp
  then show ?thesis by (simp add: grid_loop_def)
qed

lemma fold_rows_other:
  fixes w :: nat
  assumes "y \<notin> set ys" and "x < w"
  shows "fold (\<lambda>y. fold (\<lambda>x a. a[y * w + x := F x y (a ! (y * w + x))]) [0..<w]) ys a ! (y * w + x)
       = a ! (y * w + x)"
  using assms
proof (induction ys arbitrary: a)
  case Nil
  then show ?case by simp
next
  case (Cons z zs)
  have "\<forall>u \<in> set [0..<w]. z * w + u \<noteq> y * w + x"
    using Cons.prems cell_index_unique[of _ w x z y] by auto
  then have "fold (\<lambda>x a. a[z * w + x := F x z (a ! (z * w + x))]) [0..<w] a ! (y * w + x)
      = a ! (y * w + x)"
    by (rule fold_row_update_other)
  with Cons show ?case by simp
qed

lemma fold_rows_hit:
  fixes w :: nat
  assumes "y \<in> set ys" and "distinct ys" and "x < w" and "y * w + x < length a"
  shows "fold (\<lambda>y. fold (\<lambda>x a. a[y * w + x := F x y (a ! (y * w + x))]) [0..<w]) ys a ! (y * w + x)
       = F x y (a ! (y * w + x))"
  using assms
proof (induction ys arbitrary: a)
  case Nil
  then show ?case by simp
next
  case (Cons z zs)
  show ?case
  proof (cases "z = y")
    case True
    have inj: "inj_on (\<lambda>x. y * w + x) (set [0..<w])" by (simp add: inj_on_def)
    have "fold (\<lambda>x a. a[y * w + x := F x y (a ! (y * w + x))]) [0..<w] a ! (y * w + x)
        = F x y (a ! (y * w + x))"
      using fold_row_update_hit[of x "[0..<w]" "\<lambda>x. y * w + x" a "\<lambda>x. F x y"] inj Cons.prems
      by simp
    moreover have "y \<notin> set zs" using Cons.prems(2) True by simp
    ultimately show ?thesis
      using True fold_rows_other[of y zs x w F] Cons.prems(3) by simp
  next
    case False
    with Cons.prems have yz: "y \<in> set zs" "distinct zs" by simp_all
    let ?a = "fold (\<lambda>x a. a[z * w + x := F x z (a ! (z * w + x))]) [0..<w] a"
    have "length ?a = length a"
      by (rule fold_length_preserved) simp
    with Cons.prems(4) have len: "y * w + x < length ?a" by simp
    have "\<forall>u \<in> set [0..<w]. z * w + u \<noteq> y * w + x"
      using False Cons.prems(3) cell_index_unique[of _ w x z y] by auto
    then have same: "?a ! (y * w + x) = a ! (y * w + x)"
      by (rule fold_row_update_other)
    show ?thesis using Cons.IH[OF yz Cons.prems(3) len] same by simp
  qed
qed

lemma grid_loop_update_nth:
  assumes "x < w" and "y < h" and "length a = w * h"
  shows "grid_loop w h (\<lambda>x y a. a[y * w + x := F x y (a ! (y * w + x))]) a ! (y * w + x)
       = F x y (a ! (y * w + x))"
proof -
  have "y * w + x < length a" using assms cell_index_less by simp
  then show ?thesis
    unfolding grid_loop_def using fold_rows_hit[of y "[0..<h]" x w a F] assms by simp
qed

section \<open>Biome classification: every cell is assigned by the first matching rule\<close>

text \<open>The window search of the code finds a water cell exactly when one lies within radius 3.\<close>

lemma nearOcean_ocean_within:
  assumes "x < width" and "y < height"
  shows "nearOcean landMask width height x y \<longleftrightarrow> ocean_within 3 landMask width height x y"
proof
  assume "nearOcean landMask width height x y"
  then have "\<exists>dy \<in> {- 3..3}. \<exists>dx \<in> {- 3..3}.
      in_bounds width height (int x + dx) (int y + dy)
      \<and> landMask ! cell_index width (int x + dx) (int y + dy) = 0"
    by (simp only: nearOcean_def list_ex_iff set_upto)
  then obtain dx dy where d: "- 3 \<le> dx" "dx \<le> 3" "- 3 \<le> dy" "dy \<le> 3"
    and b: "in_bounds width height (int x + dx) (int y + dy)"
    and w: "landMask ! cell_index width (int x + dx) (int y + dy) = 0"
    by (auto simp only: atLeastAtMost_iff)
  define nx where "nx = nat (int x + dx)"
  define ny where "ny = nat (int y + dy)"
  from b have nx: "int nx = int x + dx" "nx < width" and ny: "int ny = int y + dy" "ny < height"
    by (auto simp: in_bounds_def nx_def ny_def)
  have idx: "cell_index width (int x + dx) (int y + dy) = ny * width + nx"
    by (simp add: cell_index_def nx(1)[symmetric] ny(1)[symmetric] nat_add_distrib nat_mult_distrib
        del: of_nat_add of_nat_mult)
  have "ny * width + nx < width * height"
  proof -
    have "ny * width + nx < ny * width + width" using nx(2) by simp
    also have "\<dots> = Suc ny * width" by simp
    also have "\<dots> \<le> height * width" using ny(2) by (intro mult_le_mono1) simp
    finally show ?thesis by (simp add: mult.commute)
  qed
  moreover have "(ny * width + nx) mod width = nx" "(ny * width + nx) div width = ny"
    using nx(2) by simp_all
  ultimately show "ocean_within 3 landMask width height x y"
    unfolding ocean_within_def using w d nx(1) ny(1) idx
    by (intro bexI[of _ "ny * width + nx"]) auto
next
  assume "ocean_within 3 landMask width height x y"
  then obtain j where j: "j < width * height" "landMask ! j = 0"
    and cx: "\<bar>int (j mod width) - int x\<bar> \<le> 3" and cy: "\<bar>int (j div width) - int y\<bar> \<le> 3"
    by (auto simp: ocean_within_def)
  from j(1) have wpos: "0 < width" by (cases width) simp_all
  define dx where "dx = int (j mod width) - int x"
  define dy where "dy = int (j div width) - int y"
  have row: "j div width < height"
    using j(1) wpos by (simp add: less_mult_imp_div_less mult.commute)
  have col: "j mod width < width" using wpos by simp
  have b: "in_bounds width height (int x + dx) (int y + dy)"
    using row col by (simp add: in_bounds_def dx_def dy_def)
  have "int (j div width) * int width + int (j mod width) = int (j div width * width + j mod width)"
    by (simp only: of_nat_add of_nat_mult)
  also have "\<dots> = int j" by (simp only: div_mult_mod_eq)
  finally have idx: "cell_index width (int x + dx) (int y + dy) = j"
    by (simp add: cell_index_def dx_def dy_def)
  have "dx \<in> {- 3..3}" "dy \<in> {- 3..3}" using cx cy by (auto simp: dx_def dy_def)
  with b idx j(2) have "\<exists>dy \<in> {- 3..3}. \<exists>dx \<in> {- 3..3}.
      in_bounds width height (int x + dx) (int y + dy)
      \<and> landMask ! cell_index width (int x + dx) (int y + dy) = 0"
    by blast
  then show "nearOcean landMask width height x y"
    by (simp only: nearOcean_def list_ex_iff set_upto)
qed

text \<open>Some row of the table matches every input: the rows leave no gap.\<close>

lemma biome_table_total: "\<exists>b. first_match (biome_table bs c) = Some b"
proof -
  define t where "t = ci_temp c"
  define m where "m = ci_moist c"
  define s where "s = snowTempMax bs"
  define d where "d = desertMoistureMax bs"
  consider "t < s" | "s \<le> t" "t < s * 2" | "s \<le> t" "s * 2 \<le> t" "t < 0.5"
    | "s \<le> t" "s * 2 \<le> t" "0.5 \<le> t" "t < 0.75" | "s \<le> t" "s * 2 \<le> t" "0.5 \<le> t" "0.75 \<le> t"
    by linarith
  then show ?thesis
  proof cases
    case 1
    then show ?thesis by (simp add: biome_table_def Let_def t_def s_def)
  next
    case 2
    then show ?thesis
      by (cases "m < 0.3") (simp_all add: biome_table_def Let_def t_def s_def m_def not_less)
  next
    case 3
    then show ?thesis
      by (cases "m < d"; cases "m < 0.5")
        (simp_all add: biome_table_def Let_def t_def s_def m_def d_def not_less)
  next
    case 4
    then show ?thesis
      by (cases "m < d"; cases "m < 0.4"; cases "m < 0.7")
        (simp_all add: biome_table_def Let_def t_def s_def m_def d_def not_less)
  next
    case 5
    then show ?thesis
      by (cases "m < d"; cases "m < 0.35"; cases "m < 0.6")
        (simp_all add: biome_table_def Let_def t_def s_def m_def d_def not_less)
  qed
qed

text \<open>The table read on the six values of a cell, against the nested tests of the code.\<close>

lemma classifyCell_first_match:
  assumes "x < width" and "y < height"
  shows "first_match (biome_table bs
      (cell_view heightMap landMask lakeMask temperature moisture seaLevel width height x y))
   = Some (classifyCell heightMap landMask lakeMask temperature moisture bs seaLevel width height x y)"
proof -
  let ?c = "cell_view heightMap landMask lakeMask temperature moisture seaLevel width height x y"
  define e where "e = ci_landElev ?c"
  define t where "t = temperature ! (y * width + x)"
  define m where "m = moisture ! (y * width + x)"
  define s where "s = snowTempMax bs"
  define d where "d = desertMoistureMax bs"
  note near = nearOcean_ocean_within[OF assms, of landMask]
  show ?thesis
  proof (cases "landMask ! (y * width + x) = 0")
    case True
    then show ?thesis by (simp add: biome_table_def cell_view_def classifyCell_def Let_def)
  next
    case land: False
    show ?thesis
    proof (cases "lakeMask ! (y * width + x) = 1")
      case True
      with land show ?thesis by (simp add: biome_table_def cell_view_def classifyCell_def Let_def)
    next
      case nolake: False
      note top = land nolake near
      consider "t < s" | "s \<le> t" "t < s * 2" | "s \<le> t" "s * 2 \<le> t" "t < 0.5"
        | "s \<le> t" "s * 2 \<le> t" "0.5 \<le> t" "t < 0.75" | "s \<le> t" "s * 2 \<le> t" "0.5 \<le> t" "0.75 \<le> t"
        by linarith
      then show ?thesis
      proof cases
        case 1
        then show ?thesis using top
          by (simp add: biome_table_def cell_view_def classifyCell_def Let_def
              t_def s_def not_less not_le)
      next
        case 2
        then show ?thesis using top
          by (cases "m < 0.3")
            (simp_all add: biome_table_def cell_view_def classifyCell_def Let_def
              t_def s_def m_def not_less not_le)
      next
        case 3
        then show ?thesis using top
          by (cases "m < d"; cases "m < 0.5")
            (simp_all add: biome_table_def cell_view_def classifyCell_def Let_def
              t_def s_def m_def d_def not_less not_le)
      next
        case 4
        then show ?thesis using top
          by (cases "m < d"; cases "m < 0.4"; cases "m < 0.7")
            (simp_all add: biome_table_def cell_view_def classifyCell_def Let_def
              t_def s_def m_def d_def not_less not_le)
      next
        case 5
        then show ?thesis using top
          by (cases "m < d"; cases "m < 0.35"; cases "m < 0.6")
            (simp_all add: biome_table_def cell_view_def classifyCell_def Let_def
              t_def s_def m_def d_def not_less not_le)
      qed
    qed
  qed
qed

text \<open>
  Claim C9 (biome totality). For layers of the grid's size and a sea level in \<open>(0, 1)\<close>,
  \<open>classifyBiomes\<close> returns one biome per cell, and the biome of cell \<open>(x, y)\<close>
  is the one selected by the first row that matches in the documented order (ocean, lake,
  beach near ocean, high mountain, temperature and moisture bands); for every combination
  of inputs some row matches.
\<close>

theorem classifyBiomes_first_match:
  assumes "x < width" and "y < height"
    and "length heightMap = width * height" and "length landMask = width * height"
    and "length lakeMask = width * height" and "length temperature = width * height"
    and "length moisture = width * height"
    and "0 < seaLevel" and "seaLevel < 1"
  shows "length (classifyBiomes heightMap landMask lakeMask temperature moisture bs seaLevel width height)
           = width * height
       \<and> first_match (biome_table bs
            (cell_view heightMap landMask lakeMask temperature moisture seaLevel width height x y))
         = Some (classifyBiomes heightMap landMask lakeMask temperature moisture bs seaLevel width height
                   ! (y * width + x))
       \<and> (\<forall>c. \<exists>b. first_match (biome_table bs c) = Some b)"
proof -
  have len: "length (classifyBiomes heightMap landMask lakeMask temperature moisture bs seaLevel width height)
      = width * height"
    unfolding classifyBiomes_def
    using grid_loop_update_length[of width height "\<lambda>x y. y * width + x"
        "\<lambda>x y old. classifyCell heightMap landMask lakeMask temperature moisture bs seaLevel width height x y"
        "replicate (width * height) Ocean"]
    by simp
  have nth: "classifyBiomes heightMap landMask lakeMask temperature moisture bs seaLevel width height
        ! (y * width + x)
      = classifyCell heightMap landMask lakeMask temperature moisture bs seaLevel width height x y"
    unfolding classifyBiomes_def
    using grid_loop_update_nth[OF assms(1,2), of "replicate (width * height) Ocean"
        "\<lambda>x y old. classifyCell heightMap landMask lakeMask temperature moisture bs seaLevel width height x y"]
    by simp
  show ?thesis
    using biome_table_total len nth classifyCell_first_match[OF assms(1,2)] by simp
qed

text \<open>
  A shore of two cells: the land cell lies just above sea level next to the water cell,
  and is Beach.
\<close>

definition example_biomes :: biomes_settings where
  "example_biomes = \<lparr> desertMoistureMax = 0.2, snowTempMax = 0.15,
     mountainElevationMin = 0.75, beachElevationRange = 0.05 \<rparr>"

theorem classifyBiomes_first_match_witness:
  "(0 :: nat) < 2 \<and> (0 :: nat) < 1
   \<and> length [0.41, 0.3 :: real] = 2 * 1 \<and> length [1, 0 :: nat] = 2 * 1
   \<and> length [0, 0 :: nat] = 2 * 1 \<and> length [0.6, 0.5 :: real] = 2 * 1
   \<and> length [0.5, 0.5 :: real] = 2 * 1 \<and> (0 :: real) < 0.4 \<and> (0.4 :: real) < 1
   \<and> classifyBiomes [0.41, 0.3] [1, 0] [0, 0] [0.6, 0.5] [0.5, 0.5] example_biomes 0.4 2 1
        = [Beach, Ocean]
   \<and> first_match (biome_table example_biomes
         (cell_view [0.41, 0.3] [1, 0] [0, 0] [0.6, 0.5] [0.5, 0.5] 0.4 2 1 0 0))
       = Some (classifyBiomes [0.41, 0.3] [1, 0] [0, 0] [0.6, 0.5] [0.5, 0.5] example_biomes 0.4 2 1
                 ! (0 * 2 + 0))"
proof -
  have ev: "classifyBiomes [0.41, 0.3] [1, 0] [0, 0] [0.6, 0.5] [0.5, 0.5] example_biomes 0.4 2 1
      = [Beach, Ocean]"
    by code_simp
  have rule: "first_match (biome_table example_biomes
         (cell_view [0.41, 0.3] [1, 0] [0, 0] [0.6, 0.5] [0.5, 0.5] 0.4 2 1 0 0))
       = Some (classifyBiomes [0.41, 0.3] [1, 0] [0, 0] [0.6, 0.5] [0.5, 0.5] example_biomes 0.4 2 1
                 ! (0 * 2 + 0))"
    using classifyBiomes_first_match[of 0 2 0 1 "[0.41, 0.3]" "[1, 0]" "[0, 0]" "[0.6, 0.5]"
        "[0.5, 0.5]" "0.4" example_biomes]
    by simp
  show ?thesis using ev rule by simp
qed

section \<open>Flow accumulation: conservation\<close>

definition land_cells :: "nat list \<Rightarrow> nat \<Rightarrow> nat \<Rightarrow> nat set" where
  "land_cells landMask width height = {j. j < width * height \<and> landMask ! j = 1}"

definition flow_preds :: "int list \<Rightarrow> nat list \<Rightarrow> nat \<Rightarrow> nat \<Rightarrow> nat \<Rightarrow> nat set" where
  "flow_preds flowDir landMask width height k =
     {j \<in> land_cells landMask width height. flow_target flowDir width height j = Some k}"

lemma in_bounds_cell_index_less:
  assumes "in_bounds w h nx ny"
  shows "cell_index w nx ny < w * h"
proof -
  from assms have "nat nx < w" "nat ny < h" "0 \<le> nx" "0 \<le> ny"
    by (auto simp: in_bounds_def)
  then have "nat ny * w + nat nx < w * h" using cell_index_less by simp
  moreover have "cell_index w nx ny = nat ny * w + nat nx"
    using \<open>0 \<le> nx\<close> \<open>0 \<le> ny\<close> by (simp add: cell_index_def nat_add_distrib nat_mult_distrib)
  ultimately show ?thesis by simp
qed

lemma flow_target_SomeD:
  assumes "flow_target fd w h j = Some k"
  shows "\<exists>d < 8. fd ! j = int d
           \<and> in_bounds w h (int (j mod w) + DX ! d) (int (j div w) + DY ! d)
           \<and> k = cell_index w (int (j mod w) + DX ! d) (int (j div w) + DY ! d)"
proof -
  from assms have d: "0 \<le> fd ! j" "fd ! j < 8"
    by (auto simp: flow_target_def Let_def split: if_splits)
  then have "nat (fd ! j) < 8" "fd ! j = int (nat (fd ! j))" by simp_all
  moreover from assms d
  have "in_bounds w h (int (j mod w) + DX ! nat (fd ! j)) (int (j div w) + DY ! nat (fd ! j))
      \<and> k = cell_index w (int (j mod w) + DX ! nat (fd ! j)) (int (j div w) + DY ! nat (fd ! j))"
    by (auto simp: flow_target_def Let_def split: if_splits)
  ultimately show ?thesis by blast
qed

lemma flow_target_less:
  "flow_target fd w h j = Some k \<Longrightarrow> k < w * h"
  using flow_target_SomeD in_bounds_cell_index_less by blast

lemma flow_target_source:
  assumes "flow_target fd w h j = Some k"
  shows "j \<in> (\<lambda>d. nat (int k - (DY ! d * int w + DX ! d))) ` {0..<8}"
proof -
  from flow_target_SomeD[OF assms] obtain d where d: "d < 8"
    and ib: "in_bounds w h (int (j mod w) + DX ! d) (int (j div w) + DY ! d)"
    and k: "k = cell_index w (int (j mod w) + DX ! d) (int (j div w) + DY ! d)"
    by blast
  from ib have nonneg: "0 \<le> (int (j div w) + DY ! d) * int w + (int (j mod w) + DX ! d)"
    by (simp add: in_bounds_def)
  have "int j = int (j div w) * int w + int (j mod w)"
    by (metis div_mult_mod_eq of_nat_add of_nat_mult)
  then have "int k = int j + (DY ! d * int w + DX ! d)"
    using k nonneg by (simp add: cell_index_def algebra_simps)
  then have "j = nat (int k - (DY ! d * int w + DX ! d))" by simp
  with d show ?thesis by auto
qed

lemma flow_preds_finite: "finite (flow_preds fd lm w h k)"
  by (simp add: flow_preds_def land_cells_def)

lemma flow_preds_card: "card (flow_preds fd lm w h k) \<le> 8"
proof -
  have "flow_preds fd lm w h k \<subseteq> (\<lambda>d. nat (int k - (DY ! d * int w + DX ! d))) ` {0..<8}"
    using flow_target_source by (auto simp: flow_preds_def)
  then have "card (flow_preds fd lm w h k) \<le> card ((\<lambda>d. nat (int k - (DY ! d * int w + DX ! d))) ` {0..<8::nat})"
    by (intro card_mono) simp_all
  also have "\<dots> \<le> card {0..<8::nat}" by (rule card_image_le) simp
  finally show ?thesis by simp
qed


definition inflow_upto :: "int list \<Rightarrow> nat list \<Rightarrow> nat \<Rightarrow> nat \<Rightarrow> nat \<Rightarrow> nat \<Rightarrow> nat set" where
  "inflow_upto fd lm w h m k = {j. j < m \<and> lm ! j \<noteq> 0 \<and> flow_target fd w h j = Some k}"

lemma inflow_upto_finite: "finite (inflow_upto fd lm w h m k)"
  by (simp add: inflow_upto_def)

lemma inflow_upto_Suc:
  "inflow_upto fd lm w h (Suc m) k =
     (if lm ! m \<noteq> 0 \<and> flow_target fd w h m = Some k
      then insert m (inflow_upto fd lm w h m k) else inflow_upto fd lm w h m k)"
  by (auto simp: inflow_upto_def less_Suc_eq)

lemma count_inflow_prefix:
  assumes "m \<le> w * h"
  shows "length (fold (\<lambda>i inDegree.
             if lm ! i = 0 then inDegree
             else case flow_target fd w h i of
                    None \<Rightarrow> inDegree
                  | Some n \<Rightarrow> inDegree[n := inDegree ! n + 1])
           [0..<m] (replicate (w * h) (0 :: 16 word))) = w * h
       \<and> (\<forall>k < w * h. fold (\<lambda>i inDegree.
             if lm ! i = 0 then inDegree
             else case flow_target fd w h i of
                    None \<Rightarrow> inDegree
                  | Some n \<Rightarrow> inDegree[n := inDegree ! n + 1])
           [0..<m] (replicate (w * h) (0 :: 16 word)) ! k
          = of_nat (card (inflow_upto fd lm w h m k)))"
  (is "length (?deg m) = _ \<and> _")
  using assms
proof (induction m)
  case 0
  then show ?case by (simp add: inflow_upto_def)
next
  case (Suc m)
  then have len: "length (?deg m) = w * h"
    and val: "\<And>k. k < w * h \<Longrightarrow> ?deg m ! k = of_nat (card (inflow_upto fd lm w h m k))"
    by simp_all
  show ?case
  proof (cases "lm ! m = 0")
    case True
    then show ?thesis using len val by (simp add: inflow_upto_Suc)
  next
    case land: False
    show ?thesis
    proof (cases "flow_target fd w h m")
      case None
      then show ?thesis using land len val by (simp add: inflow_upto_Suc)
    next
      case (Some t)
      then have t: "t < w * h" by (rule flow_target_less)
      have nm: "m \<notin> inflow_upto fd lm w h m k" for k by (simp add: inflow_upto_def)
      have step: "?deg (Suc m) = (?deg m)[t := ?deg m ! t + 1]"
        using land Some by simp
      have "?deg (Suc m) ! k = of_nat (card (inflow_upto fd lm w h (Suc m) k))" if "k < w * h" for k
      proof (cases "k = t")
        case True
        then show ?thesis
          using step len t val[OF t] land Some nm[of t] inflow_upto_finite[of fd lm w h m t]
          by (simp add: inflow_upto_Suc)
      next
        case False
        then show ?thesis
          using step len that val[OF that] land Some by (simp add: inflow_upto_Suc)
      qed
      then show ?thesis using step len by simp
    qed
  qed
qed

lemma count_inflow_length:
  "length (count_inflow fd lm w h) = w * h"
  unfolding count_inflow_def using count_inflow_prefix[of "w * h" w h lm fd] by simp

lemma count_inflow_nth:
  assumes "k < w * h" and "set lm \<subseteq> {0, 1}" and "length lm = w * h"
  shows "unat (count_inflow fd lm w h ! k) = card (flow_preds fd lm w h k)"
proof -
  have eq: "inflow_upto fd lm w h (w * h) k = flow_preds fd lm w h k"
  proof -
    have "lm ! j \<noteq> 0 \<longleftrightarrow> lm ! j = 1" if "j < w * h" for j
    proof -
      have "lm ! j \<in> set lm" using that assms(3) by simp
      with assms(2) have "lm ! j = 0 \<or> lm ! j = 1" by auto
      then show ?thesis by auto
    qed
    then show ?thesis by (auto simp: inflow_upto_def flow_preds_def land_cells_def)
  qed
  have "count_inflow fd lm w h ! k = of_nat (card (flow_preds fd lm w h k))"
    unfolding count_inflow_def using count_inflow_prefix[of "w * h" w h lm fd] assms(1) eq by simp
  moreover have "card (flow_preds fd lm w h k) mod 2 ^ LENGTH(16) = card (flow_preds fd lm w h k)"
    using flow_preds_card[of fd lm w h k] by simp
  ultimately show ?thesis by (simp only: unat_of_nat)
qed


text \<open>A store keeps every count up to \<open>2^24\<close> as it is.\<close>

lemma bit_length_le: "n < 2 ^ k \<Longrightarrow> bit_length n \<le> k"
proof (induction k arbitrary: n)
  case 0
  then show ?case by (simp add: bit_length.simps)
next
  case (Suc k)
  show ?case
  proof (cases "n = 0")
    case True
    then show ?thesis by (simp add: bit_length.simps)
  next
    case False
    from Suc.prems have "n div 2 < 2 ^ k" by simp
    from Suc.IH[OF this] False show ?thesis by (subst bit_length.simps) simp
  qed
qed

lemma bit_length_power: "bit_length (2 ^ k) = Suc k"
  by (induction k) (simp_all add: bit_length.simps[of "Suc 0"] bit_length.simps[of 0]
      bit_length.simps[of "2 * _"])

lemma float32_exact:
  assumes "n \<le> 2 ^ 24"
  shows "float32 n = n"
proof (cases "n < 2 ^ 24")
  case True
  then have "bit_length n - 24 = 0" using bit_length_le[of n 24] by simp
  then show ?thesis by (simp add: float32_def)
next
  case False
  with assms have n: "n = 2 ^ 24" by simp
  have "bit_length n - 24 = 1" unfolding n bit_length_power by simp
  then show ?thesis by (simp add: float32_def Let_def n)
qed

definition flow_inv ::
  "int list \<Rightarrow> nat list \<Rightarrow> nat \<Rightarrow> nat \<Rightarrow> nat list \<Rightarrow> nat list \<Rightarrow> 16 word list \<Rightarrow> nat set \<Rightarrow> bool" where
  "flow_inv fd lm w h q acc deg D \<longleftrightarrow>
     length acc = w * h \<and> length deg = w * h
     \<and> D \<subseteq> land_cells lm w h \<and> set q \<subseteq> land_cells lm w h \<and> distinct q \<and> set q \<inter> D = {}
     \<and> (\<forall>k < w * h. unat (deg ! k) = card (flow_preds fd lm w h k - D))
     \<and> (\<forall>k < w * h. acc ! k = 1 + sum ((!) acc) (flow_preds fd lm w h k \<inter> D))
     \<and> (\<forall>k \<in> set q \<union> D. flow_preds fd lm w h k \<subseteq> D)
     \<and> (\<forall>k \<in> land_cells lm w h. flow_preds fd lm w h k \<subseteq> D \<longrightarrow> k \<in> set q \<union> D)
     \<and> sum ((!) acc) ({..<w * h} - D) \<le> w * h"

lemma flow_inv_step_None:
  assumes inv: "flow_inv fd lm w h (idx # rest) acc deg D"
    and tgt: "flow_target fd w h idx = None"
  shows "flow_inv fd lm w h rest acc deg (insert idx D)"
proof -
  have notin: "idx \<notin> flow_preds fd lm w h k" for k
    using tgt by (simp add: flow_preds_def)
  then have d: "flow_preds fd lm w h k - insert idx D = flow_preds fd lm w h k - D"
    and i: "flow_preds fd lm w h k \<inter> insert idx D = flow_preds fd lm w h k \<inter> D"
    and sub: "flow_preds fd lm w h k \<subseteq> insert idx D \<longleftrightarrow> flow_preds fd lm w h k \<subseteq> D" for k
    by auto
  have "sum ((!) acc) ({..<w * h} - insert idx D) \<le> sum ((!) acc) ({..<w * h} - D)"
    by (rule sum_mono2) auto
  moreover from inv have "sum ((!) acc) ({..<w * h} - D) \<le> w * h"
    unfolding flow_inv_def by blast
  ultimately have pot: "sum ((!) acc) ({..<w * h} - insert idx D) \<le> w * h"
    by (rule order_trans)
  from inv pot show ?thesis
    unfolding flow_inv_def d i sub by auto
qed

lemma flow_inv_step_Some:
  assumes inv: "flow_inv fd lm w h (idx # rest) acc deg D"
    and tgt: "flow_target fd w h idx = Some t"
    and small: "w * h \<le> 2 ^ 24"
  shows "flow_inv fd lm w h
           (if t < length deg \<and> deg ! t - 1 = 0 \<and> lm ! t = 1 then rest @ [t] else rest)
           (acc[t := float32 (acc ! t + acc ! idx)]) (deg[t := deg ! t - 1]) (insert idx D)"
proof -
  let ?P = "flow_preds fd lm w h"
  let ?L = "land_cells lm w h"
  let ?D = "insert idx D"
  let ?acc = "acc[t := acc ! t + acc ! idx]"
  let ?deg = "deg[t := deg ! t - 1]"
  let ?q = "if t < length deg \<and> deg ! t - 1 = 0 \<and> lm ! t = 1 then rest @ [t] else rest"
  from inv have lenA: "length acc = w * h" and lenD: "length deg = w * h"
    and DL: "D \<subseteq> ?L" and qL: "set (idx # rest) \<subseteq> ?L"
    and dist: "distinct (idx # rest)" and disj: "set (idx # rest) \<inter> D = {}"
    and degI: "\<And>k. k < w * h \<Longrightarrow> unat (deg ! k) = card (?P k - D)"
    and accI: "\<And>k. k < w * h \<Longrightarrow> acc ! k = 1 + sum ((!) acc) (?P k \<inter> D)"
    and closed: "\<And>k. k \<in> set (idx # rest) \<union> D \<Longrightarrow> ?P k \<subseteq> D"
    and ready: "\<And>k. k \<in> ?L \<Longrightarrow> ?P k \<subseteq> D \<Longrightarrow> k \<in> set (idx # rest) \<union> D"
    and pot: "sum ((!) acc) ({..<w * h} - D) \<le> w * h"
    unfolding flow_inv_def by blast+
  have idxL: "idx \<in> ?L" and idxD: "idx \<notin> D" and idxR: "idx \<notin> set rest"
    using qL dist disj by auto
  have t: "t < w * h" using tgt by (rule flow_target_less)
  have idxP: "idx \<in> ?P t" using idxL tgt by (simp add: flow_preds_def)
  have uniq: "k = t" if "idx \<in> ?P k" for k
    using that tgt by (simp add: flow_preds_def)
  have tfresh: "t \<notin> set (idx # rest) \<union> D"
  proof
    assume "t \<in> set (idx # rest) \<union> D"
    then have "?P t \<subseteq> D" by (rule closed)
    with idxP idxD show False by auto
  qed
  then have tidx: "t \<noteq> idx" and tR: "t \<notin> set rest" and tD: "t \<notin> D" by auto
  have fin: "finite (?P k)" for k by (rule flow_preds_finite)
  \<comment> \<open>the flow still to be passed on, and the exact store\<close>
  have idxn: "idx < w * h" using idxL by (simp add: land_cells_def)
  let ?S = "{..<w * h} - D"
  have two: "acc ! t + acc ! idx = sum ((!) acc) {t, idx}" using tidx by simp
  have "sum ((!) acc) {t, idx} \<le> sum ((!) acc) ?S"
    by (rule sum_mono2) (use t idxn tD idxD in auto)
  with two pot small have "acc ! t + acc ! idx \<le> 2 ^ 24" by linarith
  then have fl: "float32 (acc ! t + acc ! idx) = acc ! t + acc ! idx" by (rule float32_exact)
  have pot': "sum ((!) ?acc) ({..<w * h} - ?D) \<le> w * h"
  proof -
    let ?A = "?S - {idx} - {t}"
    have S: "?S = insert idx (insert t ?A)" using t idxn tD idxD by auto
    have S': "{..<w * h} - ?D = insert t ?A" using t tD tidx by auto
    have same: "sum ((!) ?acc) ?A = sum ((!) acc) ?A"
      by (rule sum.cong) auto
    have new: "sum ((!) ?acc) (insert t ?A) = ?acc ! t + sum ((!) ?acc) ?A"
      by (rule sum.insert) auto
    have old1: "sum ((!) acc) (insert t ?A) = acc ! t + sum ((!) acc) ?A"
      by (rule sum.insert) auto
    have old2: "sum ((!) acc) (insert idx (insert t ?A)) = acc ! idx + sum ((!) acc) (insert t ?A)"
      by (rule sum.insert) (use tidx in auto)
    have "sum ((!) ?acc) ({..<w * h} - ?D) = ?acc ! t + sum ((!) ?acc) ?A"
      by (simp only: S' new)
    also have "\<dots> = acc ! t + acc ! idx + sum ((!) acc) ?A"
      using same t lenA by simp
    also have "\<dots> = sum ((!) acc) (insert idx (insert t ?A))"
      by (simp only: old1 old2)
    also have "\<dots> = sum ((!) acc) ?S"
      by (simp only: S[symmetric])
    finally show ?thesis using pot by simp
  qed
  \<comment> \<open>the counters\<close>
  have deg': "unat (?deg ! k) = card (?P k - ?D)" if "k < w * h" for k
  proof (cases "k = t")
    case True
    have mem: "idx \<in> ?P t - D" using idxP idxD by simp
    then have pos: "0 < card (?P t - D)" using fin[of t] by (auto simp: card_gt_0_iff)
    then have nz: "deg ! t \<noteq> 0" using degI[OF t] by auto
    have "?P t - ?D = (?P t - D) - {idx}" by auto
    then have "card (?P t - ?D) = card (?P t - D) - 1"
      using mem fin[of t] by (simp add: card_Diff_singleton)
    moreover have "unat (deg ! t - 1) = unat (deg ! t) - 1"
      using nz by (simp add: unat_minus_one)
    ultimately show ?thesis using True t lenD degI[OF t] by simp
  next
    case False
    then have "idx \<notin> ?P k" using uniq by blast
    then have "?P k - ?D = ?P k - D" by auto
    with False that degI[OF that] show ?thesis by simp
  qed
  \<comment> \<open>the accumulated flow\<close>
  have acc_same: "?acc ! j = acc ! j" if "j \<in> ?D" for j
  proof -
    from that tD tidx have "t \<noteq> j" by auto
    then show ?thesis by simp
  qed
  have acc': "?acc ! k = 1 + sum ((!) ?acc) (?P k \<inter> ?D)" if "k < w * h" for k
  proof (cases "k = t")
    case True
    have split: "?P t \<inter> ?D = insert idx (?P t \<inter> D)" using idxP by auto
    have "sum ((!) ?acc) (?P t \<inter> ?D) = sum ((!) acc) (?P t \<inter> ?D)"
      by (rule sum.cong) (use acc_same in auto)
    also have "\<dots> = acc ! idx + sum ((!) acc) (?P t \<inter> D)"
      unfolding split using idxD fin[of t] by simp
    finally show ?thesis using True t lenA accI[OF t] by simp
  next
    case False
    then have "idx \<notin> ?P k" using uniq by blast
    then have same: "?P k \<inter> ?D = ?P k \<inter> D" by auto
    have "sum ((!) ?acc) (?P k \<inter> ?D) = sum ((!) acc) (?P k \<inter> ?D)"
      by (rule sum.cong) (use acc_same in auto)
    with False same accI[OF that] show ?thesis by simp
  qed
  \<comment> \<open>the queue\<close>
  have zero_iff: "deg ! t - 1 = 0 \<longleftrightarrow> ?P t \<subseteq> ?D"
  proof -
    have "deg ! t - 1 = 0 \<longleftrightarrow> unat (?deg ! t) = 0"
      using t lenD by (simp add: unat_eq_0)
    also have "\<dots> \<longleftrightarrow> card (?P t - ?D) = 0" using deg'[OF t] by simp
    also have "\<dots> \<longleftrightarrow> ?P t \<subseteq> ?D" using fin[of t] by auto
    finally show ?thesis .
  qed
  have qset: "set ?q \<subseteq> set rest \<union> {t}" by auto
  have qL': "set ?q \<subseteq> ?L"
    using qL t by (auto simp: land_cells_def)
  have dist': "distinct ?q" using dist tR by auto
  have disj': "set ?q \<inter> ?D = {}" using disj idxR tidx tD by auto
  have closed': "?P k \<subseteq> ?D" if "k \<in> set ?q \<union> ?D" for k
  proof (cases "k = t")
    case True
    with that tD tidx tR have "deg ! t - 1 = 0" by (auto split: if_splits)
    with True zero_iff show ?thesis by simp
  next
    case False
    with that have "k \<in> set (idx # rest) \<union> D" by (auto split: if_splits)
    then have "?P k \<subseteq> D" by (rule closed)
    then show ?thesis by auto
  qed
  have ready': "k \<in> set ?q \<union> ?D" if "k \<in> ?L" and "?P k \<subseteq> ?D" for k
  proof (cases "k = t")
    case True
    with that zero_iff have "deg ! t - 1 = 0" by simp
    moreover have "lm ! t = 1" using that(1) True by (simp add: land_cells_def)
    ultimately show ?thesis using True t lenD by simp
  next
    case False
    then have "idx \<notin> ?P k" using uniq by blast
    with that(2) have "?P k \<subseteq> D" by auto
    with that(1) have "k \<in> set (idx # rest) \<union> D" by (rule ready)
    then show ?thesis by auto
  qed
  show ?thesis
    unfolding flow_inv_def fl
  proof (intro conjI)
    show "length ?acc = w * h" using lenA by simp
    show "length ?deg = w * h" using lenD by simp
    show "?D \<subseteq> ?L" using DL idxL by simp
    show "set ?q \<subseteq> ?L" by (rule qL')
    show "distinct ?q" by (rule dist')
    show "set ?q \<inter> ?D = {}" by (rule disj')
    show "\<forall>k < w * h. unat (?deg ! k) = card (?P k - ?D)" using deg' by blast
    show "\<forall>k < w * h. ?acc ! k = 1 + sum ((!) ?acc) (?P k \<inter> ?D)" using acc' by blast
    show "\<forall>k \<in> set ?q \<union> ?D. ?P k \<subseteq> ?D" using closed' by blast
    show "\<forall>k \<in> ?L. ?P k \<subseteq> ?D \<longrightarrow> k \<in> set ?q \<union> ?D" using ready' by blast
    show "sum ((!) ?acc) ({..<w * h} - ?D) \<le> w * h" by (rule pot')
  qed
qed


declare flow_loop.simps [simp del]

lemma flow_loop_inv:
  assumes "flow_inv fd lm w h q acc deg D" and "w * h \<le> 2 ^ 24"
  shows "\<exists>deg' D'. flow_inv fd lm w h [] (flow_loop fd lm w h q acc deg) deg' D'"
  using assms
proof (induction fd lm w h q acc deg arbitrary: D rule: flow_loop.induct)
  case (1 fd lm w h q acc deg)
  show ?case
  proof (cases q)
    case Nil
    with "1.prems" show ?thesis by (auto simp: flow_loop.simps)
  next
    case (Cons idx rest)
    show ?thesis
    proof (cases "flow_target fd w h idx")
      case None
      have "flow_inv fd lm w h rest acc deg (insert idx D)"
        using "1.prems" Cons None flow_inv_step_None by simp
      from "1.IH"(1)[OF Cons None this "1.prems"(2)] show ?thesis
        using Cons None by (simp add: flow_loop.simps[of fd lm w h "idx # rest"])
    next
      case (Some t)
      have "flow_inv fd lm w h
           (if t < length deg \<and> deg ! t - 1 = 0 \<and> lm ! t = 1 then rest @ [t] else rest)
           (acc[t := float32 (acc ! t + acc ! idx)]) (deg[t := deg ! t - 1]) (insert idx D)"
        using "1.prems" Cons Some flow_inv_step_Some by simp
      from "1.IH"(2)[OF Cons Some this "1.prems"(2)] show ?thesis
        using Cons Some by (simp add: flow_loop.simps[of fd lm w h "idx # rest"])
    qed
  qed
qed

lemma flow_inv_init:
  assumes "set lm \<subseteq> {0, 1}" and "length lm = w * h"
  shows "flow_inv fd lm w h
           (filter (\<lambda>i. lm ! i = 1 \<and> count_inflow fd lm w h ! i = 0) [0..<w * h])
           (replicate (w * h) 1) (count_inflow fd lm w h) {}"
proof -
  let ?deg = "count_inflow fd lm w h"
  let ?P = "flow_preds fd lm w h"
  have deg: "unat (?deg ! k) = card (?P k)" if "k < w * h" for k
    using count_inflow_nth[OF that assms] .
  have zero: "?deg ! k = 0 \<longleftrightarrow> ?P k = {}" if "k < w * h" for k
  proof -
    have "?deg ! k = 0 \<longleftrightarrow> unat (?deg ! k) = 0" by (simp add: unat_eq_0)
    also have "\<dots> \<longleftrightarrow> card (?P k) = 0" using deg[OF that] by simp
    also have "\<dots> \<longleftrightarrow> ?P k = {}" using flow_preds_finite[of fd lm w h k] by simp
    finally show ?thesis .
  qed
  show ?thesis
    unfolding flow_inv_def
  proof (intro conjI)
    show "\<forall>k\<in>set (filter (\<lambda>i. lm ! i = 1 \<and> ?deg ! i = 0) [0..<w * h]) \<union> {}. ?P k \<subseteq> {}"
      using zero by auto
    show "\<forall>k\<in>land_cells lm w h. ?P k \<subseteq> {} \<longrightarrow>
        k \<in> set (filter (\<lambda>i. lm ! i = 1 \<and> ?deg ! i = 0) [0..<w * h]) \<union> {}"
      using zero by (auto simp: land_cells_def)
  qed (use deg in \<open>auto simp: count_inflow_length land_cells_def\<close>)
qed

lemma flow_inv_final:
  fixes hm :: "real list"
  assumes inv: "flow_inv fd lm w h [] acc deg D"
    and desc: "\<And>j k. j \<in> land_cells lm w h \<Longrightarrow> flow_target fd w h j = Some k \<Longrightarrow> hm ! k < hm ! j"
  shows "D = land_cells lm w h"
proof (rule ccontr)
  let ?L = "land_cells lm w h"
  let ?S = "?L - D"
  assume "D \<noteq> ?L"
  moreover from inv have DL: "D \<subseteq> ?L" by (simp add: flow_inv_def)
  ultimately have ne: "?S \<noteq> {}" by auto
  have fin: "finite ?S" by (simp add: land_cells_def)
  define M where "M = Max ((\<lambda>j. hm ! j) ` ?S)"
  have "M \<in> (\<lambda>j. hm ! j) ` ?S" unfolding M_def using fin ne by (intro Max_in) auto
  then obtain k where k: "k \<in> ?S" "hm ! k = M" by auto
  have top: "hm ! j \<le> hm ! k" if "j \<in> ?S" for j
    using that fin k(2) unfolding M_def by (auto intro: Max_ge)
  have "flow_preds fd lm w h k \<subseteq> D"
  proof
    fix j assume j: "j \<in> flow_preds fd lm w h k"
    then have jL: "j \<in> ?L" and "flow_target fd w h j = Some k" by (simp_all add: flow_preds_def)
    then have "hm ! k < hm ! j" by (rule desc)
    with top[of j] jL show "j \<in> D" by auto
  qed
  with inv k(1) have "k \<in> D" by (auto simp: flow_inv_def)
  with k(1) show False by simp
qed


lemma step_dist_pos: "0 < step_dist d"
  by (simp add: step_dist_def)

definition descent_state :: "real list \<Rightarrow> nat \<Rightarrow> nat \<Rightarrow> nat \<Rightarrow> nat \<Rightarrow> int \<times> real \<Rightarrow> bool" where
  "descent_state hm w h x y st \<longleftrightarrow>
     (fst st = - 1 \<and> snd st = 0)
     \<or> (\<exists>d < 8. fst st = int d \<and> in_bounds w h (int x + DX ! d) (int y + DY ! d)
            \<and> hm ! cell_index w (int x + DX ! d) (int y + DY ! d) < hm ! (y * w + x)
            \<and> 0 < snd st)"

lemma steepest_step_descent:
  assumes "descent_state hm w h x y st" and "d < 8"
  shows "descent_state hm w h x y (steepest_step hm w h x y d st)"
proof -
  have nonneg: "0 \<le> snd st" using assms(1) by (auto simp: descent_state_def)
  show ?thesis
  proof (cases "in_bounds w h (int x + DX ! d) (int y + DY ! d)
      \<and> snd st < (hm ! (y * w + x) - hm ! cell_index w (int x + DX ! d) (int y + DY ! d)) / step_dist d")
    case False
    then have "steepest_step hm w h x y d st = st"
      by (auto simp: steepest_step_def Let_def)
    with assms(1) show ?thesis by simp
  next
    case True
    then have res: "steepest_step hm w h x y d st
        = (int d, (hm ! (y * w + x) - hm ! cell_index w (int x + DX ! d) (int y + DY ! d)) / step_dist d)"
      by (auto simp: steepest_step_def Let_def)
    from True nonneg
    have pos: "0 < (hm ! (y * w + x) - hm ! cell_index w (int x + DX ! d) (int y + DY ! d)) / step_dist d"
      by simp
    then have "0 < hm ! (y * w + x) - hm ! cell_index w (int x + DX ! d) (int y + DY ! d)"
      using step_dist_pos[of d] by (simp add: zero_less_divide_iff)
    with True pos assms(2) show ?thesis
      unfolding res descent_state_def by auto
  qed
qed

lemma steepest_fold_descent:
  assumes "descent_state hm w h x y st" and "\<forall>d \<in> set ds. d < 8"
  shows "descent_state hm w h x y (fold (steepest_step hm w h x y) ds st)"
  using assms by (induction ds arbitrary: st) (simp_all add: steepest_step_descent)

lemma calculateFlowDirection_length:
  "length (calculateFlowDirection hm lm w h) = w * h"
proof -
  have body: "(\<lambda>x y flowDir. if lm ! (y * w + x) = 0 then flowDir
          else flowDir[y * w + x := fst (fold (steepest_step hm w h x y) [0..<8] (- 1, 0))])
      = (\<lambda>x y flowDir. flowDir[y * w + x :=
          (\<lambda>x y old. if lm ! (y * w + x) = 0 then old
             else fst (fold (steepest_step hm w h x y) [0..<8] (- 1, 0))) x y (flowDir ! (y * w + x))])"
    by (intro ext) simp
  show ?thesis
    unfolding calculateFlowDirection_def body
    using grid_loop_update_length[of w h "\<lambda>x y. y * w + x"
        "\<lambda>x y old. if lm ! (y * w + x) = 0 then old
             else fst (fold (steepest_step hm w h x y) [0..<8] (- 1, 0))" "replicate (w * h) (- 1)"]
    by simp
qed

lemma calculateFlowDirection_nth:
  assumes "x < w" and "y < h"
  shows "calculateFlowDirection hm lm w h ! (y * w + x)
       = (if lm ! (y * w + x) = 0 then - 1
          else fst (fold (steepest_step hm w h x y) [0..<8] (- 1, 0)))"
proof -
  have body: "(\<lambda>x y flowDir. if lm ! (y * w + x) = 0 then flowDir
          else flowDir[y * w + x := fst (fold (steepest_step hm w h x y) [0..<8] (- 1, 0))])
      = (\<lambda>x y flowDir. flowDir[y * w + x :=
          (\<lambda>x y old. if lm ! (y * w + x) = 0 then old
             else fst (fold (steepest_step hm w h x y) [0..<8] (- 1, 0))) x y (flowDir ! (y * w + x))])"
    by (intro ext) simp
  have "y * w + x < w * h" using assms by (rule cell_index_less)
  then show ?thesis
    unfolding calculateFlowDirection_def body
    using grid_loop_update_nth[OF assms, of "replicate (w * h) (- 1)"
        "\<lambda>x y old. if lm ! (y * w + x) = 0 then old
             else fst (fold (steepest_step hm w h x y) [0..<8] (- 1, 0))"]
    by simp
qed

lemma calculateFlowDirection_descends:
  assumes j: "j < w * h" and tgt: "flow_target (calculateFlowDirection hm lm w h) w h j = Some k"
  shows "hm ! k < hm ! j"
proof -
  let ?fd = "calculateFlowDirection hm lm w h"
  let ?x = "j mod w" and ?y = "j div w"
  have w: "0 < w" using j by (cases w) auto
  then have x: "?x < w" by simp
  have y: "?y < h" using j w by (simp add: less_mult_imp_div_less mult.commute)
  have idx: "?y * w + ?x = j" by simp
  from flow_target_SomeD[OF tgt] obtain d where d: "d < 8" "?fd ! j = int d"
    and k: "k = cell_index w (int ?x + DX ! d) (int ?y + DY ! d)" by blast
  let ?st = "fold (steepest_step hm w h ?x ?y) [0..<8] (- 1, 0)"
  have fd: "?fd ! j = (if lm ! j = 0 then - 1 else fst ?st)"
    using calculateFlowDirection_nth[OF x y, of hm lm] idx by simp
  with d(2) have fst: "fst ?st = int d" by (auto split: if_splits)
  have "descent_state hm w h ?x ?y ?st"
    by (rule steepest_fold_descent) (simp_all add: descent_state_def)
  with fst obtain d' where "d' < 8" "int d = int d'"
    "hm ! cell_index w (int ?x + DX ! d') (int ?y + DY ! d') < hm ! (?y * w + ?x)"
    unfolding descent_state_def by auto
  with k idx show ?thesis by simp
qed

text \<open>
  The cell a land cell drains to in \<open>calculateFlowAccumulation\<close> is the cell its
  direction points into, and there is none when the direction points off the grid.
\<close>

lemma flow_target_points_into:
  "flow_target fd w h j = Some k \<and> j < w * h \<longleftrightarrow> points_into fd w h j k"
proof
  assume a: "flow_target fd w h j = Some k \<and> j < w * h"
  from flow_target_SomeD[OF conjunct1[OF a]] obtain d where d: "d < 8" "fd ! j = int d"
    and ib: "in_bounds w h (int (j mod w) + DX ! d) (int (j div w) + DY ! d)"
    and k: "k = cell_index w (int (j mod w) + DX ! d) (int (j div w) + DY ! d)"
    by blast
  define nx where "nx = nat (int (j mod w) + DX ! d)"
  define ny where "ny = nat (int (j div w) + DY ! d)"
  from ib have nx: "int nx = int (j mod w) + DX ! d" "nx < w"
    and ny: "int ny = int (j div w) + DY ! d" "ny < h"
    by (auto simp: in_bounds_def nx_def ny_def)
  have "k = nat (int ny * int w + int nx)" unfolding k cell_index_def nx(1) ny(1) ..
  also have "\<dots> = ny * w + nx" by (simp only: of_nat_mult[symmetric] of_nat_add[symmetric] nat_int)
  finally have k': "k = ny * w + nx" .
  have "k mod w = nx" "k div w = ny" using nx(2) by (simp_all add: k')
  moreover have "k < w * h" unfolding k using ib by (rule in_bounds_cell_index_less)
  ultimately show "points_into fd w h j k"
    unfolding points_into_def using a d nx(1) ny(1) by auto
next
  assume "points_into fd w h j k"
  then obtain d where j: "j < w * h" and k: "k < w * h" and d: "d < 8" "fd ! j = int d"
    and cx: "int (k mod w) = int (j mod w) + DX ! d"
    and cy: "int (k div w) = int (j div w) + DY ! d"
    by (auto simp: points_into_def)
  from k have wpos: "0 < w" by (cases w) simp_all
  have row: "k div w < h" using k wpos by (simp add: less_mult_imp_div_less mult.commute)
  have col: "k mod w < w" using wpos by simp
  have ib: "in_bounds w h (int (j mod w) + DX ! d) (int (j div w) + DY ! d)"
    unfolding cx[symmetric] cy[symmetric] using row col by (simp add: in_bounds_def)
  have "int (k div w) * int w + int (k mod w) = int (k div w * w + k mod w)"
    by (simp only: of_nat_add of_nat_mult)
  also have "\<dots> = int k" by (simp only: div_mult_mod_eq)
  finally have idx: "cell_index w (int (j mod w) + DX ! d) (int (j div w) + DY ! d) = k"
    unfolding cx[symmetric] cy[symmetric] by (simp add: cell_index_def)
  have "flow_target fd w h j = Some k"
    using d ib idx by (simp add: flow_target_def Let_def)
  with j show "flow_target fd w h j = Some k \<and> j < w * h" by simp
qed

lemma points_into_cells:
  "set (filter (\<lambda>j. lm ! j = 1 \<and> points_into fd w h j k) [0..<w * h]) = flow_preds fd lm w h k"
  using flow_target_points_into[of fd w h _ k]
  by (auto simp: flow_preds_def land_cells_def)

text \<open>
  Claim C3 (flow conservation). For the flow directions that \<open>calculateFlowDirection\<close>
  computes from any height map and any 0/1 land mask, on a grid of at most \<open>2^24\<close>
  cells, the array returned by \<open>calculateFlowAccumulation\<close> has one entry per cell,
  every land cell has accumulation at least 1, and every cell's accumulation is 1 plus
  the sum of the accumulations of the land cells whose flow direction points into it.
\<close>

theorem flow_conservation:
  fixes heightMap :: "real list" and landMask :: "nat list" and width height :: nat
  defines "flowDir \<equiv> calculateFlowDirection heightMap landMask width height"
  defines "flowAccum \<equiv> calculateFlowAccumulation flowDir landMask width height"
  assumes "length heightMap = width * height"
    and len: "length landMask = width * height"
    and mask: "set landMask \<subseteq> {0, 1}"
    and small: "width * height \<le> 2 ^ 24"
  shows "length flowAccum = width * height
       \<and> (\<forall>i < width * height.
            (landMask ! i = 1 \<longrightarrow> 1 \<le> flowAccum ! i)
            \<and> flowAccum ! i
                = 1 + sum_list (map (\<lambda>j. flowAccum ! j)
                        (filter (\<lambda>j. landMask ! j = 1 \<and> points_into flowDir width height j i)
                           [0..<width * height])))"
proof -
  let ?P = "flow_preds flowDir landMask width height"
  let ?L = "land_cells landMask width height"
  have "flow_inv flowDir landMask width height
           (filter (\<lambda>i. landMask ! i = 1 \<and> count_inflow flowDir landMask width height ! i = 0)
              [0..<width * height])
           (replicate (width * height) 1) (count_inflow flowDir landMask width height) {}"
    using mask len by (rule flow_inv_init)
  from flow_loop_inv[OF this small] obtain deg D
    where inv: "flow_inv flowDir landMask width height [] flowAccum deg D"
    unfolding flowAccum_def calculateFlowAccumulation_def Let_def by blast
  have desc: "heightMap ! k < heightMap ! j"
    if "j \<in> ?L" and "flow_target flowDir width height j = Some k" for j k
    using that calculateFlowDirection_descends[of j width height heightMap landMask k]
    unfolding flowDir_def land_cells_def by simp
  have D: "D = ?L" using inv desc by (rule flow_inv_final)
  have PL: "?P k \<subseteq> ?L" for k by (auto simp: flow_preds_def)
  have eq: "flowAccum ! i = 1 + sum_list (map (\<lambda>j. flowAccum ! j)
              (filter (\<lambda>j. landMask ! j = 1 \<and> points_into flowDir width height j i)
                 [0..<width * height]))"
    if "i < width * height" for i
  proof -
    let ?cells = "filter (\<lambda>j. landMask ! j = 1 \<and> points_into flowDir width height j i)
                    [0..<width * height]"
    have dist: "distinct ?cells" by simp
    have "flowAccum ! i = 1 + sum ((!) flowAccum) (?P i \<inter> D)"
      using inv that unfolding flow_inv_def by blast
    also have "?P i \<inter> D = ?P i" using PL[of i] D by auto
    also have "?P i = set ?cells" by (rule points_into_cells[symmetric])
    also have "sum ((!) flowAccum) (set ?cells) = sum_list (map (\<lambda>j. flowAccum ! j) ?cells)"
      using sum_list_distinct_conv_sum_set[OF dist, of "(!) flowAccum"] by simp
    finally show ?thesis .
  qed
  have "length flowAccum = width * height" using inv by (simp add: flow_inv_def)
  with eq show ?thesis by simp
qed

text \<open>
  A plateau of three by three land cells with a pit in the middle: each of the eight
  cells around the pit drains into it, each along a different direction.
\<close>

lemma pit_flowDir:
  "calculateFlowDirection [0.5, 0.5, 0.5, 0.5, 0.1, 0.5, 0.5, 0.5, 0.5]
     [1, 1, 1, 1, 1, 1, 1, 1, 1] 3 3
   = [3, 4, 5, 2, - 1, 6, 1, 0, 7]"
  by (simp add: calculateFlowDirection_def grid_loop_def steepest_step_def in_bounds_def
      DX_def DY_def cell_index_def step_dist_def upt_rec) code_simp

lemma pit_flowAccum:
  "calculateFlowAccumulation [3, 4, 5, 2, - 1, 6, 1, 0, 7] [1, 1, 1, 1, 1, 1, 1, 1, 1] 3 3
   = [1, 1, 1, 1, 9, 1, 1, 1, 1]"
  by code_simp

lemma pit_inflow:
  "filter (\<lambda>j. [1, 1, 1, 1, 1, 1, 1, 1, 1 :: nat] ! j = 1
              \<and> points_into [3, 4, 5, 2, - 1, 6, 1, 0, 7] 3 3 j 4) [0..<3 * 3]
   = [0, 1, 2, 3, 5, 6, 7, 8]"
  by (simp add: points_into_def DX_def DY_def upt_rec)

theorem flow_conservation_witness:
  "length [0.5, 0.5, 0.5, 0.5, 0.1, 0.5, 0.5, 0.5, 0.5 :: real] = 3 * 3
   \<and> length [1, 1, 1, 1, 1, 1, 1, 1, 1 :: nat] = 3 * 3
   \<and> set [1, 1, 1, 1, 1, 1, 1, 1, 1 :: nat] \<subseteq> {0, 1}
   \<and> (3 :: nat) * 3 \<le> 2 ^ 24
   \<and> (4 :: nat) < 3 * 3
   \<and> calculateFlowDirection [0.5, 0.5, 0.5, 0.5, 0.1, 0.5, 0.5, 0.5, 0.5]
         [1, 1, 1, 1, 1, 1, 1, 1, 1] 3 3
       = [3, 4, 5, 2, - 1, 6, 1, 0, 7]
   \<and> calculateFlowAccumulation [3, 4, 5, 2, - 1, 6, 1, 0, 7] [1, 1, 1, 1, 1, 1, 1, 1, 1] 3 3
       = [1, 1, 1, 1, 9, 1, 1, 1, 1]
   \<and> filter (\<lambda>j. [1, 1, 1, 1, 1, 1, 1, 1, 1 :: nat] ! j = 1
                  \<and> points_into [3, 4, 5, 2, - 1, 6, 1, 0, 7] 3 3 j 4) [0..<3 * 3]
       = [0, 1, 2, 3, 5, 6, 7, 8]
   \<and> [1, 1, 1, 1, 9, 1, 1, 1, 1 :: nat] ! 4
       = 1 + sum_list (map (\<lambda>j. [1, 1, 1, 1, 9, 1, 1, 1, 1] ! j)
               (filter (\<lambda>j. [1, 1, 1, 1, 1, 1, 1, 1, 1 :: nat] ! j = 1
                          \<and> points_into [3, 4, 5, 2, - 1, 6, 1, 0, 7] 3 3 j 4) [0..<3 * 3]))"
proof -
  have hyps: "length [0.5, 0.5, 0.5, 0.5, 0.1, 0.5, 0.5, 0.5, 0.5 :: real] = 3 * 3"
    "length [1, 1, 1, 1, 1, 1, 1, 1, 1 :: nat] = 3 * 3"
    "set [1, 1, 1, 1, 1, 1, 1, 1, 1 :: nat] \<subseteq> {0, 1}"
    "(3 :: nat) * 3 \<le> 2 ^ 24"
    by simp_all
  have four: "(4 :: nat) < 3 * 3" by simp
  from flow_conservation[OF hyps, THEN conjunct2, rule_format, OF four, THEN conjunct2]
  have "[1, 1, 1, 1, 9, 1, 1, 1, 1 :: nat] ! 4
       = 1 + sum_list (map (\<lambda>j. [1, 1, 1, 1, 9, 1, 1, 1, 1] ! j)
               (filter (\<lambda>j. [1, 1, 1, 1, 1, 1, 1, 1, 1 :: nat] ! j = 1
                          \<and> points_into [3, 4, 5, 2, - 1, 6, 1, 0, 7] 3 3 j 4) [0..<3 * 3]))"
    by (simp only: pit_flowDir pit_flowAccum)
  with hyps four pit_flowDir pit_flowAccum pit_inflow show ?thesis by (intro conjI)
qed

section \<open>City placement: spacing\<close>

lemma dist_less_code [code]:
  "dist_less dx dy m \<longleftrightarrow> 0 < m \<and> dx * dx + dy * dy < m * m"
proof (cases "0 < m")
  case True
  have nn: "0 \<le> real_of_int (dx * dx + dy * dy)" by simp
  have "sqrt (real_of_int (dx * dx + dy * dy)) < real_of_int m
      \<longleftrightarrow> real_of_int (dx * dx + dy * dy) < (real_of_int m)\<^sup>2"
    using True nn by (metis of_int_0_less_iff real_sqrt_less_iff real_sqrt_abs abs_of_pos real_sqrt_unique less_eq_real_def)
  also have "\<dots> \<longleftrightarrow> dx * dx + dy * dy < m * m"
    by (metis of_int_less_iff of_int_mult power2_eq_square)
  finally show ?thesis using True by (simp add: dist_less_def)
next
  case False
  then have "real_of_int m \<le> 0" by simp
  moreover have "0 \<le> sqrt (real_of_int (dx * dx + dy * dy))" by simp
  ultimately have "\<not> sqrt (real_of_int (dx * dx + dy * dy)) < real_of_int m" by linarith
  then show ?thesis using False by (simp only: dist_less_def) simp
qed

lemma dist_less_swap: "dist_less (a - b) (c - d) m = dist_less (b - a) (d - c) m"
proof -
  have "(a - b) * (a - b) + (c - d) * (c - d) = (b - a) * (b - a) + (d - c) * (d - c)"
    by (simp add: algebra_simps)
  then show ?thesis by (simp only: dist_less_def)
qed

definition sample_ok :: "nat list \<Rightarrow> nat \<Rightarrow> int \<Rightarrow> int \<times> real \<times> PRNG \<Rightarrow> bool" where
  "sample_ok placed w m st \<longleftrightarrow> fst st = - 1 \<or> (0 \<le> fst st \<and> \<not> tooClose placed w m (nat (fst st)))"

lemma sample_step_ok:
  assumes "sample_ok placed w m st"
  shows "sample_ok placed w m (sample_step scores placed w m n st)"
  using assms by (auto simp: sample_ok_def sample_step_def Let_def split_beta)

lemma sample_fold_ok:
  assumes "sample_ok placed w m st"
  shows "sample_ok placed w m (fold (\<lambda>s. sample_step scores placed w m n) xs st)"
  using assms by (induction xs arbitrary: st) (simp_all add: sample_step_ok)

definition spaced :: "int \<Rightarrow> City list \<Rightarrow> bool" where
  "spaced m cs \<longleftrightarrow>
     (\<forall>i j. i < j \<and> j < length cs \<longrightarrow>
        \<not> dist_less (int (city_x (cs ! i)) - int (city_x (cs ! j)))
                     (int (city_y (cs ! i)) - int (city_y (cs ! j))) m)"

definition placed_inv :: "nat \<Rightarrow> int \<Rightarrow> City list \<Rightarrow> nat list \<Rightarrow> bool" where
  "placed_inv w m cs placed \<longleftrightarrow>
     (\<forall>c \<in> set cs. \<exists>p \<in> set placed. city_x c = p mod w \<and> city_y c = p div w) \<and> spaced m cs"

lemma spaced_snoc:
  assumes "spaced m cs"
    and "\<forall>c \<in> set cs. \<not> dist_less (int (city_x c) - int (city_x d)) (int (city_y c) - int (city_y d)) m"
  shows "spaced m (cs @ [d])"
  unfolding spaced_def
proof (intro allI impI)
  fix i j assume ij: "i < j \<and> j < length (cs @ [d])"
  show "\<not> dist_less (int (city_x ((cs @ [d]) ! i)) - int (city_x ((cs @ [d]) ! j)))
                     (int (city_y ((cs @ [d]) ! i)) - int (city_y ((cs @ [d]) ! j))) m"
  proof (cases "j < length cs")
    case True
    with ij assms(1) show ?thesis by (simp add: spaced_def nth_append)
  next
    case False
    with ij have j: "j = length cs" and i: "i < length cs" by simp_all
    then have "cs ! i \<in> set cs" by simp
    with assms(2) i j show ?thesis by (simp add: nth_append)
  qed
qed

lemma place_step_inv:
  assumes "placed_inv w (minSpacing cs) (fst st) (fst (snd st))"
  shows "placed_inv w (minSpacing cs) (fst (place_step lm rv cs w h i st))
           (fst (snd (place_step lm rv cs w h i st)))"
proof -
  let ?m = "minSpacing cs"
  let ?cities = "fst st" and ?placed = "fst (snd st)"
  let ?best = "fold (\<lambda>s. sample_step (fst (snd (snd st))) ?placed w ?m (w * h))
                 [0..<min 1000 (w * h)] (- 1, 0, snd (snd (snd st)))"
  have ok: "sample_ok ?placed w ?m ?best"
    by (rule sample_fold_ok) (simp add: sample_ok_def)
  show ?thesis
  proof (cases "0 \<le> fst ?best")
    case False
    then show ?thesis using assms by (simp add: place_step_def Let_def split_beta)
  next
    case True
    with ok have far: "\<not> tooClose ?placed w ?m (nat (fst ?best))"
      by (auto simp: sample_ok_def)
    let ?b = "nat (fst ?best)"
    obtain d where res: "fst (place_step lm rv cs w h i st) = ?cities @ [d]"
      and dx: "city_x d = ?b mod w" and dy: "city_y d = ?b div w"
      and pl: "fst (snd (place_step lm rv cs w h i st))
                 = (if ?b \<in> set ?placed then ?placed else ?placed @ [?b])"
      using True by (simp add: place_step_def Let_def split_beta)
    have sub: "set ?placed \<subseteq> set (fst (snd (place_step lm rv cs w h i st)))"
      and mem: "?b \<in> set (fst (snd (place_step lm rv cs w h i st)))"
      unfolding pl by auto
    have old: "\<forall>c \<in> set ?cities. \<not> dist_less (int (city_x c) - int (city_x d))
                    (int (city_y c) - int (city_y d)) ?m"
    proof
      fix c assume "c \<in> set ?cities"
      with assms obtain p where p: "p \<in> set ?placed" "city_x c = p mod w" "city_y c = p div w"
        by (auto simp: placed_inv_def)
      from far p(1) have "\<not> dist_less (int (?b mod w) - int (p mod w)) (int (?b div w) - int (p div w)) ?m"
        by (auto simp: tooClose_def list_ex_iff)
      then show "\<not> dist_less (int (city_x c) - int (city_x d)) (int (city_y c) - int (city_y d)) ?m"
        unfolding p dx dy by (subst dist_less_swap)
    qed
    have "spaced ?m (?cities @ [d])"
      using assms old by (intro spaced_snoc) (simp_all add: placed_inv_def)
    moreover have "\<forall>c \<in> set (?cities @ [d]).
        \<exists>p \<in> set (fst (snd (place_step lm rv cs w h i st))). city_x c = p mod w \<and> city_y c = p div w"
    proof
      fix c assume c: "c \<in> set (?cities @ [d])"
      show "\<exists>p \<in> set (fst (snd (place_step lm rv cs w h i st))). city_x c = p mod w \<and> city_y c = p div w"
      proof (cases "c = d")
        case True
        with mem dx dy show ?thesis by blast
      next
        case False
        with c have "c \<in> set ?cities" by simp
        with assms obtain p where "p \<in> set ?placed" "city_x c = p mod w" "city_y c = p div w"
          by (auto simp: placed_inv_def)
        with sub show ?thesis by blast
      qed
    qed
    ultimately show ?thesis unfolding res placed_inv_def by simp
  qed
qed

lemma place_fold_inv:
  assumes "placed_inv w (minSpacing cs) (fst st) (fst (snd st))"
  shows "placed_inv w (minSpacing cs) (fst (fold (place_step lm rv cs w h) xs st))
           (fst (snd (fold (place_step lm rv cs w h) xs st)))"
  using assms by (induction xs arbitrary: st) (simp_all add: place_step_inv)

lemma placeCities_spaced:
  "spaced (minSpacing cs) (placeCities hm lm biome rv cs w h prng)"
proof (cases "cities_enabled cs")
  case False
  then show ?thesis by (simp add: placeCities_def spaced_def)
next
  case True
  let ?sc = "grid_loop w h (score_cell hm lm biome rv cs w h) (replicate (w * h) 0, prng)"
  have "placed_inv w (minSpacing cs)
          (fst (fold (place_step lm rv cs w h) [0..<count cs] ([], [], fst ?sc, snd ?sc)))
          (fst (snd (fold (place_step lm rv cs w h) [0..<count cs] ([], [], fst ?sc, snd ?sc))))"
    by (rule place_fold_inv) (simp add: placed_inv_def spaced_def)
  then show ?thesis using True by (simp add: placeCities_def Let_def split_beta placed_inv_def)
qed

text \<open>
  Claim C6 (spacing invariant). For any two distinct cities of the list returned by
  \<open>placeCities\<close>, the Euclidean distance between their grid positions is at least
  the configured \<open>minSpacing\<close>.
\<close>

theorem placeCities_min_spacing:
  "\<forall>i j. i < j \<and> j < length (placeCities heightMap landMask biome rivers cs width height prng) \<longrightarrow>
     real_of_int (minSpacing cs)
       \<le> sqrt (real_of_int
            ((int (city_x (placeCities heightMap landMask biome rivers cs width height prng ! i))
               - int (city_x (placeCities heightMap landMask biome rivers cs width height prng ! j)))\<^sup>2
           + (int (city_y (placeCities heightMap landMask biome rivers cs width height prng ! i))
               - int (city_y (placeCities heightMap landMask biome rivers cs width height prng ! j)))\<^sup>2))"
  using placeCities_spaced[of cs heightMap landMask biome rivers width height prng]
  by (simp add: spaced_def dist_less_def power2_eq_square not_less)


text \<open>A run on a strip of three land cells: both rounds place a city, two cells apart.\<close>

definition example_cities :: cities_settings where
  "example_cities = \<lparr> cities_enabled = True, count = 2, minSpacing = 2, coastPreference = 1.5,
     riverPreference = 2, flatPreference = 0 \<rparr>"

lemma example_scores:
  "grid_loop 3 1 (score_cell [0.5, 0.5, 0.5] [1, 1, 1] [Grassland, Grassland, Grassland] [0, 0, 0]
      example_cities 3 1) (replicate (3 * 1) 0, 1)
   = ([11283196659 / 8589934592, 8601684425 / 8589934592, 10855302379 / 8589934592], 5494697440)"
  by code_simp

lemma example_round0:
  "place_step [1, 1, 1] [0, 0, 0] example_cities 3 1 0
     ([], [], [11283196659 / 8589934592, 8601684425 / 8589934592, 10855302379 / 8589934592],
      5494697440)
   = ([\<lparr> city_id = 0, city_x = 0, city_y = 0, city_size = 1, city_type = capital,
          city_name = ''Hold'' \<rparr>],
      [0], [0, 0, 10855302379 / 8589934592], 16484092318)"
  by code_simp

lemma example_round1:
  "place_step [1, 1, 1] [0, 0, 0] example_cities 3 1 1
     ([\<lparr> city_id = 0, city_x = 0, city_y = 0, city_size = 1, city_type = capital,
          city_name = ''Hold'' \<rparr>],
      [0], [0, 0, 10855302379 / 8589934592], 16484092318)
   = ([\<lparr> city_id = 0, city_x = 0, city_y = 0, city_size = 1, city_type = capital,
          city_name = ''Hold'' \<rparr>,
       \<lparr> city_id = 1, city_x = 2, city_y = 0, city_size = 1646519307 / 4294967296,
          city_type = town, city_name = ''Burgminster'' \<rparr>],
      [0, 2], [0, 0, 0], 31136618822)"
  by code_simp

lemma example_placeCities:
  "placeCities [0.5, 0.5, 0.5] [1, 1, 1] [Grassland, Grassland, Grassland] [0, 0, 0]
      example_cities 3 1 1
   = [\<lparr> city_id = 0, city_x = 0, city_y = 0, city_size = 1, city_type = capital,
          city_name = ''Hold'' \<rparr>,
       \<lparr> city_id = 1, city_x = 2, city_y = 0, city_size = 1646519307 / 4294967296,
          city_type = town, city_name = ''Burgminster'' \<rparr>]"
proof -
  have c: "cities_enabled example_cities" "count example_cities = 2"
    by (simp_all add: example_cities_def)
  have u: "[0..<2] = [0, 1]" by (simp add: upt_rec numeral_2_eq_2)
  show ?thesis
    by (simp only: placeCities_def Let_def c u example_scores example_round0 example_round1
        fold_simps split_conv simp_thms if_False id_apply comp_apply)
qed

theorem placeCities_min_spacing_witness:
  "(0 :: nat) < 1
   \<and> 1 < length (placeCities [0.5, 0.5, 0.5] [1, 1, 1] [Grassland, Grassland, Grassland] [0, 0, 0]
                   example_cities 3 1 1)
   \<and> real_of_int (minSpacing example_cities)
       \<le> sqrt (real_of_int
            ((int (city_x (placeCities [0.5, 0.5, 0.5] [1, 1, 1] [Grassland, Grassland, Grassland]
                             [0, 0, 0] example_cities 3 1 1 ! 0))
               - int (city_x (placeCities [0.5, 0.5, 0.5] [1, 1, 1] [Grassland, Grassland, Grassland]
                                [0, 0, 0] example_cities 3 1 1 ! 1)))\<^sup>2
           + (int (city_y (placeCities [0.5, 0.5, 0.5] [1, 1, 1] [Grassland, Grassland, Grassland]
                             [0, 0, 0] example_cities 3 1 1 ! 0))
               - int (city_y (placeCities [0.5, 0.5, 0.5] [1, 1, 1] [Grassland, Grassland, Grassland]
                                [0, 0, 0] example_cities 3 1 1 ! 1)))\<^sup>2))"
proof -
  have len: "1 < length (placeCities [0.5, 0.5, 0.5] [1, 1, 1] [Grassland, Grassland, Grassland]
      [0, 0, 0] example_cities 3 1 1)"
    by (simp only: example_placeCities) simp
  from placeCities_min_spacing[of "[0.5, 0.5, 0.5]" "[1, 1, 1]"
      "[Grassland, Grassland, Grassland]" "[0, 0, 0]" example_cities 3 1 1, rule_format, of 0 1] len
  show ?thesis by simp
qed

text \<open>
  A run on two cells, a land cell and an ocean cell: the first round draws the ocean cell
  twice and places nothing, the second round places a city with id 1.
\<close>

definition coastal_cities :: cities_settings where
  "coastal_cities = \<lparr> cities_enabled = True, count = 2, minSpacing = 1, coastPreference = 1.5,
     riverPreference = 2, flatPreference = 0 \<rparr>"

lemma coastal_scores:
  "grid_loop 2 1 (score_cell [0.5, 0.3] [1, 0] [Grassland, Ocean] [0, 0] coastal_cities 2 1)
      (replicate (2 * 1) 0, 26)
   = ([1479476275 / 536870912, 0], 1831565839)"
  by code_simp

lemma coastal_round0:
  "place_step [1, 0] [0, 0] coastal_cities 2 1 0 ([], [], [1479476275 / 536870912, 0], 1831565839)
   = ([], [], [1479476275 / 536870912, 0], 5494697465)"
  by code_simp

lemma coastal_round1:
  "place_step [1, 0] [0, 0] coastal_cities 2 1 1 ([], [], [1479476275 / 536870912, 0], 5494697465)
   = ([\<lparr> city_id = 1, city_x = 0, city_y = 0, city_size = 19200455727 / 21474836480,
          city_type = city, city_name = ''Marsh'' \<rparr>],
      [0], [0, 0], 18315658156)"
  by code_simp

text \<open>
  Claim C7 (the first city is the capital). The claim fails on this input: the list
  returned is not empty and holds no capital, because the type \<open>capital\<close> is tied
  to the round number \<open>i = 0\<close> and not to the first city placed.
\<close>

theorem placeCities_without_capital:
  "placeCities [0.5, 0.3] [1, 0] [Grassland, Ocean] [0, 0] coastal_cities 2 1 26
   = [\<lparr> city_id = 1, city_x = 0, city_y = 0, city_size = 19200455727 / 21474836480,
         city_type = city, city_name = ''Marsh'' \<rparr>]"
proof -
  have c: "cities_enabled coastal_cities" "count coastal_cities = 2"
    by (simp_all add: coastal_cities_def)
  have u: "[0..<2] = [0, 1]" by (simp add: upt_rec numeral_2_eq_2)
  show ?thesis
    by (simp only: placeCities_def Let_def c u coastal_scores coastal_round0 coastal_round1
        fold_simps split_conv simp_thms if_False id_apply comp_apply)
qed

section \<open>Road generation: the path search returns, with at most two cells\<close>















section \<open>Road generation: no self-loop, no repeated pair, bounded degree\<close>











text \<open>The ids \<open>placeCities\<close> gives are the round numbers, so they are distinct.\<close>

lemma place_step_ids:
  assumes "distinct (map city_id (fst st))" and "\<forall>c \<in> set (fst st). city_id c < i"
  shows "distinct (map city_id (fst (place_step lm rv cs w h i st)))
         \<and> (\<forall>c \<in> set (fst (place_step lm rv cs w h i st)). city_id c < Suc i)"
proof -
  let ?best = "fold (\<lambda>s. sample_step (fst (snd (snd st))) (fst (snd st)) w (minSpacing cs) (w * h))
                 [0..<min 1000 (w * h)] (- 1, 0, snd (snd (snd st)))"
  show ?thesis
  proof (cases "0 \<le> fst ?best")
    case False
    then have "fst (place_step lm rv cs w h i st) = fst st"
      by (simp add: place_step_def Let_def split_beta)
    with assms show ?thesis by (auto simp: less_Suc_eq)
  next
    case True
    then obtain d where "fst (place_step lm rv cs w h i st) = fst st @ [d]" and "city_id d = i"
      by (simp add: place_step_def Let_def split_beta)
    with assms show ?thesis by (auto simp: less_Suc_eq)
  qed
qed

lemma place_fold_ids:
  "distinct (map city_id (fst (fold (place_step lm rv cs w h) [0..<n] ([], placed, scores, prng))))
   \<and> (\<forall>c \<in> set (fst (fold (place_step lm rv cs w h) [0..<n] ([], placed, scores, prng))).
         city_id c < n)"
proof (induction n)
  case 0
  show ?case by simp
next
  case (Suc n)
  from place_step_ids[OF conjunct1[OF Suc] conjunct2[OF Suc], of lm rv cs w h]
  show ?case by simp
qed

lemma placeCities_ids_distinct:
  "distinct (map city_id (placeCities hm lm biome rv cs w h prng))"
proof (cases "cities_enabled cs")
  case False
  then show ?thesis by (simp add: placeCities_def)
next
  case True
  let ?sc = "grid_loop w h (score_cell hm lm biome rv cs w h) (replicate (w * h) 0, prng)"
  from place_fold_ids[of lm rv cs w h "count cs" "[]" "fst ?sc" "snd ?sc"]
  show ?thesis using True by (simp add: placeCities_def Let_def split_beta)
qed


text \<open>
  A run on the strip of three land cells, with the two cities \<open>placeCities\<close> puts
  there: one road, from city 0 at \<open>(0, 0)\<close> to city 1 at \<open>(2, 0)\<close>.
\<close>

lemma simplifyPath_short: "length p \<le> 2 \<Longrightarrow> simplifyPath p = p"
  by (subst simplifyPath.simps) simp

definition example_roads :: roads_settings where
  "example_roads = \<lparr> roads_enabled = True, maxConnectionsPerCity = 3, costElevation = 2,
     costWater = 100, costForest = 1.5, costMountain = 5 \<rparr>"

definition strip_cities :: "City list" where
  "strip_cities =
     [\<lparr> city_id = 0, city_x = 0, city_y = 0, city_size = 1, city_type = capital,
        city_name = ''Hold'' \<rparr>,
      \<lparr> city_id = 1, city_x = 2, city_y = 0, city_size = 1646519307 / 4294967296,
        city_type = town, city_name = ''Burgminster'' \<rparr>]"

lemma strip_findPath_cells:
  "findPath_cells (0, 0) (2, 0) [0.5, 0.5, 0.5] [1, 1, 1] [0, 0, 0] example_roads 0.4 3 1
   = Some (Some [(1, 0), (2, 0)])"
  by code_simp

lemma strip_findPath:
  "findPath (0, 0) (2, 0) [0.5, 0.5, 0.5] [1, 1, 1] [0, 0, 0] example_roads 0.4 3 1
   = Some (Some [(1, 0), (2, 0)])"
  by (simp only: findPath_def strip_findPath_cells option.map) (simp add: simplifyPath_short)

lemma strip_city_pairs:
  "sort_key (\<lambda>pair. snd (snd pair)) (city_pairs strip_cities)
   = [(\<lparr> city_id = 0, city_x = 0, city_y = 0, city_size = 1, city_type = capital,
         city_name = ''Hold'' \<rparr>,
       \<lparr> city_id = 1, city_x = 2, city_y = 0, city_size = 1646519307 / 4294967296,
         city_type = town, city_name = ''Burgminster'' \<rparr>, 2)]"
  by (simp add: city_pairs_def strip_cities_def upt_rec numeral_2_eq_2)

lemma strip_road_step:
  "map_option fst
     (road_step [0.5, 0.5, 0.5] [1, 1, 1] [0, 0, 0] example_roads 0.4 3 1
        (\<lparr> city_id = 0, city_x = 0, city_y = 0, city_size = 1, city_type = capital,
           city_name = ''Hold'' \<rparr>,
         \<lparr> city_id = 1, city_x = 2, city_y = 0, city_size = 1646519307 / 4294967296,
           city_type = town, city_name = ''Burgminster'' \<rparr>, 2)
        (Some ([], \<lambda>id. 0)))
   = Some [\<lparr> fromCityId = 0, toCityId = 1, road_path = [(1, 0), (2, 0)] \<rparr>]"
proof -
  have m: "maxConnectionsPerCity example_roads = 3" by (simp add: example_roads_def)
  show ?thesis
    by (simp add: road_step_def Let_def m strip_findPath[simplified])
qed

lemma strip_generateRoads:
  "generateRoads strip_cities [0.5, 0.5, 0.5] [1, 1, 1] [0, 0, 0] example_roads 0.4 3 1
   = Some [\<lparr> fromCityId = 0, toCityId = 1, road_path = [(1, 0), (2, 0)] \<rparr>]"
proof -
  have e: "(\<not> roads_enabled example_roads \<or> length strip_cities < 2) = False"
    by (simp add: example_roads_def strip_cities_def)
  show ?thesis
    by (simp only: generateRoads_def e if_False strip_city_pairs fold_simps id_apply comp_apply
        strip_road_step)
qed


text \<open>
  Claim C4 (road simplification). The claim asks that the stored path of an accepted
  road starts at the from-city and ends at the to-city. \<open>findPath\<close> copies only
  \<open>openSet\<close> into \<open>pathNodes\<close>, and every expanded cell has been deleted from
  \<open>openSet\<close>: the trace stops at the parent of the goal cell. The raw path has at most
  two cells (\<open>findPath_cells_returns\<close>), and on the strip the road from city 0 at
  \<open>(0, 0)\<close> to city 1 at \<open>(2, 0)\<close> is stored with the path \<open>[(1, 0), (2, 0)]\<close>.
\<close>

theorem generateRoads_path_skips_from_city:
  "map_option (map (\<lambda>r. (fromCityId r, hd (road_path r), toCityId r, last (road_path r))))
     (generateRoads strip_cities [0.5, 0.5, 0.5] [1, 1, 1] [0, 0, 0] example_roads 0.4 3 1)
   = Some [(0, (1, 0), 1, (2, 0))]
   \<and> (city_x (strip_cities ! 0), city_y (strip_cities ! 0)) = (0, 0)
   \<and> (city_x (strip_cities ! 1), city_y (strip_cities ! 1)) = (2, 0)"
  by (simp only: strip_generateRoads) (simp add: strip_cities_def)

theorem generateRoads_path_skips_from_city_witness:
  "roads_enabled example_roads \<and> length strip_cities = 2
   \<and> map_option (map (\<lambda>r. (fromCityId r, hd (road_path r), toCityId r, last (road_path r))))
        (generateRoads strip_cities [0.5, 0.5, 0.5] [1, 1, 1] [0, 0, 0] example_roads 0.4 3 1)
      = Some [(0, (1, 0), 1, (2, 0))]"
proof -
  have a: "roads_enabled example_roads" by (simp add: example_roads_def)
  have b: "length strip_cities = 2" by (simp add: strip_cities_def)
  from a b generateRoads_path_skips_from_city show ?thesis by blast
qed

section \<open>Water distance: a grid without water\<close>

lemma water_bfs_Nil: "water_bfs width height [] distance = Some distance"
  by (rule trans[OF water_bfs.simps]) simp

text \<open>
  Claim C10 (water distance in \<open>[0, 1]\<close>). The claim asks that every entry of the
  returned field lies in \<open>[0, 1]\<close> for every input. On a grid with no water cell the
  queue starts empty, no finite distance is ever stored, \<open>maxDist\<close> stays 0 and the
  division is skipped: the field is returned as it was filled, with \<open>Infinity\<close>
  everywhere. The grid of one land cell:
\<close>

theorem calculateWaterDistance_no_water:
  "calculateWaterDistance [1] [0] [0] 1 1 = Some [PosInfinity]"
proof -
  have start: "grid_loop 1 1
      (\<lambda>x y st. if [1 :: nat] ! (y * 1 + x) = 0 \<or> [0 :: nat] ! (y * 1 + x) > 0
                      \<or> [0 :: nat] ! (y * 1 + x) = 1
                   then ((fst st)[y * 1 + x := Num 0], snd st @ [(x, y, 0 :: real)])
                   else st)
      (replicate (1 * 1) PosInfinity, [])
    = ([PosInfinity], [])"
    by (simp add: grid_loop_def)
  show ?thesis
    unfolding calculateWaterDistance_def Let_def start
    by (simp add: water_bfs_Nil)
qed

text \<open>With a water cell next to the land cell the field is normalized as the claim says.\<close>

lemma calculateWaterDistance_shore: "calculateWaterDistance [1, 0] [0, 0] [0, 0] 2 1 = Some [Num 1, Num 0]"
proof -
  have b1: "water_bfs 2 1 [(1, 0, 0)] [PosInfinity, Num 0] = water_bfs 2 1 [(0, 0, 1)] [Num 1, Num 0]"
    by (rule trans[OF water_bfs.simps])
       (simp add: relax_step_def in_bounds_def cell_index_def DX_def DY_def step_dist_def upt_rec Let_def)
  have b2: "water_bfs 2 1 [(0, 0, 1)] [Num 1, Num 0] = water_bfs 2 1 [] [Num 1, Num 0]"
    by (rule trans[OF water_bfs.simps])
       (simp add: relax_step_def in_bounds_def cell_index_def DX_def DY_def step_dist_def upt_rec Let_def)
  have st: "grid_loop 2 1
      (\<lambda>x y st. if [1, 0 :: nat] ! (y * 2 + x) = 0 \<or> [0, 0 :: nat] ! (y * 2 + x) > 0
                      \<or> [0, 0 :: nat] ! (y * 2 + x) = 1
                   then ((fst st)[y * 2 + x := Num 0], snd st @ [(x, y, 0 :: real)])
                   else st)
      (replicate (2 * 1) PosInfinity, [])
    = ([PosInfinity, Num 0], [(1, 0, 0)])"
    by (simp add: grid_loop_def upt_rec numeral_2_eq_2)
  show ?thesis
    unfolding calculateWaterDistance_def Let_def st fst_conv snd_conv b1 b2 water_bfs_Nil
    by (simp add: upt_rec numeral_2_eq_2)
qed


end
